theory Spec2Isabelle
  imports Main "HOL-Library.Word"
begin

unbundle bit_operations_syntax

section \<open>Data model of icmp.c\<close>

type_synonym byte = "8 word"

text \<open>
  Modelled from the spec: the enumeration of icmp.h behind \<open>ICMP_REQUEST\<close> and
  \<open>ICMP_REPLY\<close>; the header is not among the sources.  The spec gives the logical type
  as one of Request and Reply.
\<close>

datatype icmp_type = ICMP_REQUEST | ICMP_REPLY

text \<open>
  Modelled from the spec: \<open>struct icmp_packet\<close> of icmp.h, with the fields the source
  reads and writes.  The identifier and the sequence number are 16-bit unsigned values.
  The payload pointer is \<open>None\<close> for \<open>NULL\<close> and \<open>Some bs\<close> for a buffer holding the
  bytes \<open>bs\<close>; \<open>payload_len\<close> is the separate length field.  Of the peer address only
  the family and \<open>peer_len\<close> are read by the codec.
\<close>

record icmp_packet =
  peer_family :: nat
  peer_len :: int
  type :: icmp_type
  id' :: "16 word"
  seqno :: "16 word"
  payload :: "byte list option"
  payload_len :: nat

text \<open>
  Modelled from the spec: the macro \<open>ICMP_HDRLEN\<close> of icmp.h; the wire header is fixed
  at 8 bytes.
\<close>

definition ICMP_HDRLEN :: int where
  "ICMP_HDRLEN = 8"

text \<open>
  Modelled from the spec: the macro \<open>ICMP_ADDRFAMILY\<close> of icmp.h; the rule is selected by
  the address family stored in the packet's peer address.
\<close>

definition ICMP_ADDRFAMILY :: "icmp_packet \<Rightarrow> nat" where
  "ICMP_ADDRFAMILY pkt = peer_family pkt"

text \<open>Constants of the system headers (netinet/ip_icmp.h, netinet/icmp6.h, sys/socket.h).\<close>

definition AF_INET :: nat where
  "AF_INET = 2"

definition ICMP_ECHO :: int where
  "ICMP_ECHO = 8"

definition ICMP_ECHOREPLY :: int where
  "ICMP_ECHOREPLY = 0"

definition ICMP6_ECHO_REQUEST :: int where
  "ICMP6_ECHO_REQUEST = 128"

definition ICMP6_ECHO_REPLY :: int where
  "ICMP6_ECHO_REPLY = 129"

section \<open>Family rule table\<close>

record icmp_rule =
  request_type :: int
  reply_type :: int
  use_checksum :: int
  strip_iphdr :: int

definition icmpv4 :: icmp_rule where
  "icmpv4 = \<lparr> request_type = ICMP_ECHO, reply_type = ICMP_ECHOREPLY,
              use_checksum = 1, strip_iphdr = 1 \<rparr>"

definition icmpv6 :: icmp_rule where
  "icmpv6 = \<lparr> request_type = ICMP6_ECHO_REQUEST, reply_type = ICMP6_ECHO_REPLY,
              use_checksum = 0, strip_iphdr = 0 \<rparr>"

definition GET_RULE :: "icmp_packet \<Rightarrow> icmp_rule" where
  "GET_RULE pkt = (if ICMP_ADDRFAMILY pkt = AF_INET then icmpv4 else icmpv6)"

section \<open>Checksum, read16, write16\<close>

text \<open>
  The loop of \<open>checksum\<close>: \<open>i\<close> runs over the even indices below \<open>len\<close>, \<open>c\<close> is a
  16-bit value and \<open>csum\<close> a 32-bit accumulator whose addition wraps.  The counter and
  the length are natural numbers: every caller passes a non-negative \<open>int\<close>, so the
  32-bit counter of the source never wraps.  The buffer holds at least \<open>len\<close> bytes.
\<close>

function checksum_loop :: "byte list \<Rightarrow> nat \<Rightarrow> nat \<Rightarrow> 32 word \<Rightarrow> 32 word" where
  "checksum_loop data len i csum =
     (if i < len then
        (let c = (push_bit 8 (ucast (data ! i)) :: 16 word);
             c = (if i + 1 < len then c OR ucast (data ! (i + 1)) else c)
         in checksum_loop data len (i + 2) (csum + ucast c))
      else csum)"
  by pat_completeness auto
termination
  by (relation "measure (\<lambda>(data, len, i, csum). len - i)") auto

declare checksum_loop.simps [simp del]

definition checksum :: "byte list \<Rightarrow> nat \<Rightarrow> 16 word" where
  "checksum data len =
     (let csum = checksum_loop data len 0 0;
          csum = drop_bit 16 csum + (csum AND 0xffff);
          csum = csum + drop_bit 16 csum
      in ucast (NOT csum))"

definition read16 :: "byte list \<Rightarrow> nat \<Rightarrow> 16 word" where
  "read16 data off = push_bit 8 (ucast (data ! off)) OR ucast (data ! (off + 1))"

definition write16 :: "byte list \<Rightarrow> nat \<Rightarrow> 16 word \<Rightarrow> byte list" where
  "write16 data off s = data[off := ucast (drop_bit 8 s), off + 1 := ucast (s AND 0xFF)]"

text \<open>\<open>memcpy(&dst[off], src, n)\<close> for \<open>off + n \<le> length dst\<close> and \<open>n \<le> length src\<close>.\<close>

definition memcpy :: "byte list \<Rightarrow> nat \<Rightarrow> byte list \<Rightarrow> nat \<Rightarrow> byte list" where
  "memcpy dst off src n = take off dst @ take n src @ drop (off + n) dst"

section \<open>Encode and send\<close>

text \<open>
  A packet the encoder can be given: the payload pointer addresses at least
  \<open>payload_len\<close> bytes (or the length is zero), and the total length fits the
  \<open>int\<close> that holds it.
\<close>

definition pkt_wf :: "icmp_packet \<Rightarrow> bool" where
  "pkt_wf pkt \<longleftrightarrow>
     (case payload pkt of None \<Rightarrow> payload_len pkt = 0
                        | Some bs \<Rightarrow> payload_len pkt \<le> length bs)
     \<and> 8 + payload_len pkt < 2 ^ 31"

definition payload_buf :: "icmp_packet \<Rightarrow> byte list" where
  "payload_buf pkt = (case payload pkt of None \<Rightarrow> [] | Some bs \<Rightarrow> bs)"

text \<open>
  \<open>icmp_encode\<close>.  \<open>calloc_ok\<close> says whether \<open>calloc\<close> returns a buffer; the result is
  \<open>None\<close> for the \<open>NULL\<close> return and otherwise the buffer with the value stored
  through \<open>len\<close>.
\<close>

definition icmp_encode :: "bool \<Rightarrow> icmp_packet \<Rightarrow> (byte list \<times> int) option" where
  "icmp_encode calloc_ok pkt =
     (let rule = GET_RULE pkt;
          pktlen = ICMP_HDRLEN + int (payload_len pkt)
      in if \<not> calloc_ok then None
         else
           (let data = replicate (nat pktlen) (0 :: byte);
                data = (if type pkt = ICMP_REQUEST
                        then data[0 := word_of_int (request_type rule)]
                        else data[0 := word_of_int (reply_type rule)]);
                data = write16 data 4 (id' pkt);
                data = write16 data 6 (seqno pkt);
                data = (if payload_len pkt \<noteq> 0
                        then memcpy data 8 (payload_buf pkt) (payload_len pkt)
                        else data);
                data = (if use_checksum rule \<noteq> 0
                        then write16 data 2 (checksum data (nat pktlen))
                        else data)
            in Some (data, pktlen)))"

text \<open>
  The external send primitive \<open>sendto\<close> is a parameter: any function from the arguments
  of the call to the returned \<open>int\<close>.  The calls made so far are kept in a list.
\<close>

record sendto_call =
  sc_socket :: int
  sc_buf :: "byte list"
  sc_len :: int
  sc_flags :: int
  sc_family :: nat
  sc_addrlen :: int

definition icmp_send ::
  "bool \<Rightarrow> (sendto_call \<Rightarrow> int) \<Rightarrow> int \<Rightarrow> icmp_packet \<Rightarrow> sendto_call list
     \<Rightarrow> int \<times> sendto_call list" where
  "icmp_send calloc_ok sendto socket pkt calls =
     (case icmp_encode calloc_ok pkt of
        None \<Rightarrow> (0, calls)
      | Some (icmpdata, len) \<Rightarrow>
          (let call = \<lparr> sc_socket = socket, sc_buf = icmpdata, sc_len = len, sc_flags = 0,
                        sc_family = peer_family pkt, sc_addrlen = peer_len pkt \<rparr>
           in (sendto call, calls @ [call])))"

section \<open>Parse\<close>

text \<open>
  A call of \<open>icmp_parse\<close> returns a code and leaves the packet in some state, or, when
  \<open>malloc\<close> fails, passes \<open>NULL\<close> to \<open>memcpy\<close>: the source does not test the pointer.
\<close>

datatype parse_result = Returned int icmp_packet | Fault

text \<open>Lines 139 to 148: the fields are stored once the type code is accepted.\<close>

definition icmp_parse_fields ::
  "bool \<Rightarrow> icmp_packet \<Rightarrow> byte list \<Rightarrow> int \<Rightarrow> parse_result" where
  "icmp_parse_fields malloc_ok pkt data len =
     (let pkt = pkt\<lparr> id' := read16 data 4 \<rparr>;
          pkt = pkt\<lparr> seqno := read16 data 6 \<rparr>;
          pkt = pkt\<lparr> payload_len := nat (len - ICMP_HDRLEN) \<rparr>
      in if payload_len pkt \<noteq> 0
         then (if malloc_ok
               then Returned 0
                      (pkt\<lparr> payload := Some (take (payload_len pkt) (drop (nat ICMP_HDRLEN) data)) \<rparr>)
               else Fault)
         else Returned 0 (pkt\<lparr> payload := None \<rparr>))"

text \<open>Lines 128 to 148: what \<open>icmp_parse\<close> does from the ICMP header on.\<close>

definition icmp_parse_stripped ::
  "icmp_rule \<Rightarrow> bool \<Rightarrow> icmp_packet \<Rightarrow> byte list \<Rightarrow> int \<Rightarrow> parse_result" where
  "icmp_parse_stripped rule malloc_ok pkt data len =
     (if len < ICMP_HDRLEN then Returned (- 1) pkt
      else if use_checksum rule \<noteq> 0 \<and> checksum data (nat len) \<noteq> 0 then Returned (- 2) pkt
      else if request_type rule = uint (data ! 0)
        then icmp_parse_fields malloc_ok (pkt\<lparr> type := ICMP_REQUEST \<rparr>) data len
      else if reply_type rule = uint (data ! 0)
        then icmp_parse_fields malloc_ok (pkt\<lparr> type := ICMP_REPLY \<rparr>) data len
      else Returned (- 5) pkt)"

text \<open>
  \<open>icmp_parse\<close>.  \<open>data\<close> holds at least \<open>len\<close> bytes; advancing the pointer by
  \<open>hdrlen\<close> drops that many bytes.
\<close>

definition icmp_parse :: "bool \<Rightarrow> icmp_packet \<Rightarrow> byte list \<Rightarrow> int \<Rightarrow> parse_result" where
  "icmp_parse malloc_ok pkt data len =
     (let rule = GET_RULE pkt
      in if strip_iphdr rule \<noteq> 0
         then (if len = 0 then Returned (- 3) pkt
               else (let hdrlen = push_bit 2 (uint (data ! 0 AND 0x0f))
                     in if len < hdrlen then Returned (- 4) pkt
                        else icmp_parse_stripped rule malloc_ok pkt
                               (drop (nat hdrlen) data) (len - hdrlen)))
         else icmp_parse_stripped rule malloc_ok pkt data len)"

section \<open>The rejection causes as the specification lists them\<close>

text \<open>
  The specification names five causes for which decoding is refused.  \<open>error_code\<close> gives
  the value \<open>icmp_parse\<close> returns at the corresponding \<open>return\<close> statement.
\<close>

datatype rejection = EmptyBuffer | TruncatedIPHeader | ShortHeader | ChecksumMismatch | UnknownType

definition error_code :: "rejection \<Rightarrow> int" where
  "error_code r = (case r of EmptyBuffer \<Rightarrow> - 3 | TruncatedIPHeader \<Rightarrow> - 4 | ShortHeader \<Rightarrow> - 1
                     | ChecksumMismatch \<Rightarrow> - 2 | UnknownType \<Rightarrow> - 5)"

text \<open>
  The decode steps written after the specification's words.  Step 1, only when the rule
  strips the IP header: refuse an empty buffer; the header length is the low four bits of
  the first byte times four; refuse when it exceeds the available length; otherwise go on
  with the rest.  Step 2: refuse fewer than 8 bytes.  Step 3, only when the rule uses a
  checksum: refuse when the checksum over the remaining bytes is not zero.  Step 4: refuse
  when byte 0 is neither the request nor the reply code.  The first refusal wins.
\<close>

definition spec_segment_rejection :: "icmp_rule \<Rightarrow> byte list \<Rightarrow> rejection option" where
  "spec_segment_rejection rule seg =
     (if length seg < 8 then Some ShortHeader
      else if use_checksum rule \<noteq> 0 \<and> checksum seg (length seg) \<noteq> 0 then Some ChecksumMismatch
      else if uint (hd seg) \<noteq> request_type rule \<and> uint (hd seg) \<noteq> reply_type rule
        then Some UnknownType
      else None)"

definition spec_decode_rejection :: "icmp_rule \<Rightarrow> byte list \<Rightarrow> rejection option" where
  "spec_decode_rejection rule buf =
     (if strip_iphdr rule \<noteq> 0
      then (if buf = [] then Some EmptyBuffer
            else (let hdrlen = 4 * unat (hd buf AND 0x0f)
                  in if length buf < hdrlen then Some TruncatedIPHeader
                     else spec_segment_rejection rule (drop hdrlen buf)))
      else spec_segment_rejection rule buf)"

section \<open>The Internet checksum as the specification names it\<close>

text \<open>
  The checksum written after the specification's words, not after the source: the one's
  complement of the one's-complement sum of the buffer's 16-bit big-endian words (RFC 1071),
  the final byte of an odd-length buffer being the high byte of a word whose low byte is
  zero.  \<open>rfc1071_sum\<close> adds the words without any bound, \<open>end_around_carry\<close> folds the
  carries back in until 16 bits remain, and \<open>rfc1071_checksum\<close> complements the result.
\<close>

fun rfc1071_sum :: "byte list \<Rightarrow> nat" where
  "rfc1071_sum [] = 0"
| "rfc1071_sum [a] = 256 * unat a"
| "rfc1071_sum (a # b # rest) = 256 * unat a + unat b + rfc1071_sum rest"

function end_around_carry :: "nat \<Rightarrow> nat" where
  "end_around_carry s =
     (if s < 65536 then s else end_around_carry (s div 65536 + s mod 65536))"
  by pat_completeness auto
termination
proof (relation "measure (\<lambda>s. s)")
  show "wf (measure (\<lambda>s. s))" by simp
next
  fix s :: nat
  assume "\<not> s < 65536"
  then have "1 \<le> s div 65536" by (simp add: Suc_le_eq div_greater_zero_iff)
  then have "s div 65536 < s div 65536 * 65536" by simp
  moreover have "s = s div 65536 * 65536 + s mod 65536" by simp
  ultimately have "s div 65536 + s mod 65536 < s" by linarith
  then show "(s div 65536 + s mod 65536, s) \<in> measure (\<lambda>s. s)" by simp
qed

declare end_around_carry.simps [simp del]

definition rfc1071_checksum :: "byte list \<Rightarrow> 16 word" where
  "rfc1071_checksum data = word_of_nat (65535 - end_around_carry (rfc1071_sum data))"

section \<open>Auxiliary notions for the proofs\<close>

text \<open>The 16-bit word made of two bytes, high byte first, widened to the accumulator.\<close>

definition word16 :: "byte \<Rightarrow> byte \<Rightarrow> 32 word" where
  "word16 a b = ucast ((push_bit 8 (ucast a) :: 16 word) OR ucast b)"

text \<open>The value the loop adds up: the big-endian words of the buffer, modulo \<open>2 ^ 32\<close>.\<close>

fun wsum :: "byte list \<Rightarrow> 32 word" where
  "wsum [] = 0"
| "wsum [a] = word16 a 0"
| "wsum (a # b # rest) = word16 a b + wsum rest"

text \<open>The last three lines of \<open>checksum\<close>, and the same computation on natural numbers.\<close>

definition fold16 :: "32 word \<Rightarrow> 16 word" where
  "fold16 csum =
     (let csum = drop_bit 16 csum + (csum AND 0xffff);
          csum = csum + drop_bit 16 csum
      in ucast (NOT csum))"

definition nfold :: "nat \<Rightarrow> nat" where
  "nfold x = (let c1 = x div 65536 + x mod 65536 in 65535 - (c1 + c1 div 65536) mod 65536)"

text \<open>The eight header bytes for a type code, a checksum, an identifier and a sequence number.\<close>

definition icmp_hdr :: "byte \<Rightarrow> 16 word \<Rightarrow> 16 word \<Rightarrow> 16 word \<Rightarrow> byte list" where
  "icmp_hdr t c i s =
     [t, 0, ucast (drop_bit 8 c), ucast (c AND 0xFF), ucast (drop_bit 8 i), ucast (i AND 0xFF),
      ucast (drop_bit 8 s), ucast (s AND 0xFF)]"

text \<open>The payload as a byte sequence: the first \<open>payload_len\<close> bytes behind the pointer.\<close>

definition payload_bytes :: "icmp_packet \<Rightarrow> byte list" where
  "payload_bytes pkt = take (payload_len pkt) (payload_buf pkt)"

section \<open>The checksum as a folded sum of words\<close>

lemma checksum_loop_wsum:
  "i \<le> length data \<Longrightarrow> checksum_loop data (length data) i csum = csum + wsum (drop i data)"
proof (induction data "length data" i csum rule: checksum_loop.induct)
  case (1 data i csum)
  show ?case
  proof (cases "i < length data")
    case False
    with 1 show ?thesis by (simp add: checksum_loop.simps)
  next
    case lt: True
    show ?thesis
    proof (cases "i + 1 < length data")
      case True
      then have d: "drop i data = data ! i # data ! (i + 1) # drop (i + 2) data"
        by (simp add: Cons_nth_drop_Suc)
      from True lt 1 show ?thesis
        by (subst checksum_loop.simps) (simp add: d word16_def Let_def add.assoc)
    next
      case False
      with lt have d: "drop i data = [data ! i]" and e: "drop (i + 2) data = []"
        by (simp_all flip: Cons_nth_drop_Suc)
      from False lt have "checksum_loop data (length data) (i + 2) (csum + word16 (data ! i) 0) = csum + word16 (data ! i) 0"
        by (subst checksum_loop.simps) simp
      with False lt show ?thesis
        by (subst checksum_loop.simps) (simp add: d word16_def Let_def)
    qed
  qed
qed

lemma unat_not16: "unat (NOT w) = 65535 - unat w" for w :: "16 word"
proof -
  have "NOT w = (- 1) - w" by (simp add: not_eq_complement)
  moreover have "unat ((- 1) - w) = unat (- 1 :: 16 word) - unat w"
    by (rule unat_sub) simp
  moreover have "unat (- 1 :: 16 word) = 65535"
    by (simp add: unsigned_minus_1_eq_mask mask_eq_exp_minus_1)
  ultimately show ?thesis by simp
qed

lemma unat_and_ffff: "unat (X AND 0xffff) = unat X mod 65536" for X :: "32 word"
proof -
  have "(0xffff :: 32 word) = mask 16" by (simp add: mask_eq_exp_minus_1)
  then have "X AND 0xffff = take_bit 16 X" by (simp only: take_bit_eq_mask)
  then have "unat (X AND 0xffff) = unat (take_bit 16 X)" by simp
  also have "\<dots> = unat X mod 65536"
    by (simp add: take_bit_eq_mod unat_mod)
  finally show ?thesis .
qed

lemma unat_drop16: "unat (drop_bit 16 X) = unat X div 65536" for X :: "32 word"
  by (simp add: drop_bit_eq_div unat_div)

lemma unat_ucast_32_16: "unat (ucast c :: 16 word) = unat c mod 65536" for c :: "32 word"
  by (simp add: unsigned_ucast_eq take_bit_eq_mod)

lemma unat_ucast_16_32: "unat (ucast c :: 32 word) = unat c" for c :: "16 word"
proof -
  have "unat c < 2 ^ 16" using unsigned_less [of c] by simp
  then have "unat c < 2 ^ 32" by simp
  then show ?thesis
    by (simp add: unsigned_ucast_eq take_bit_nat_eq_self)
qed

lemma ucast_not_32_16: "(ucast (NOT c) :: 16 word) = NOT (ucast c)" for c :: "32 word"
  by (rule bit_word_eqI) (simp add: bit_simps)

lemma unat_lt_2p32: "unat X < 4294967296" for X :: "32 word"
  using unsigned_less [of X] by simp

lemma unat_fold16: "unat (fold16 X) = nfold (unat X)"
proof -
  define x where "x = unat X"
  define c1 where "c1 = drop_bit 16 X + (X AND 0xffff)"
  have x: "x < 4294967296" unfolding x_def by (rule unat_lt_2p32)
  have "x div 65536 < 65536" using x by simp
  moreover have "x mod 65536 < 65536" by simp
  ultimately have b1: "x div 65536 + x mod 65536 < 131072" by linarith
  have u1: "unat c1 = x div 65536 + x mod 65536"
    unfolding c1_def using b1
    by (simp add: unat_word_ariths unat_drop16 unat_and_ffff x_def)
  have "unat c1 div 65536 < 2" using b1 u1 by simp
  then have b2: "unat c1 + unat c1 div 65536 < 4294967296" using b1 u1 by simp
  have u2: "unat (c1 + drop_bit 16 c1) = unat c1 + unat c1 div 65536"
    using b2 by (simp add: unat_word_ariths unat_drop16)
  have "fold16 X = NOT (ucast (c1 + drop_bit 16 c1))"
    by (simp add: fold16_def Let_def c1_def ucast_not_32_16)
  then show ?thesis
    by (simp add: unat_not16 unat_ucast_32_16 u2 u1 nfold_def Let_def flip: x_def)
qed

lemma divmod_65536:
  fixes hi lo :: nat
  assumes "lo < 65536"
  shows "(hi * 65536 + lo) div 65536 = hi" and "(hi * 65536 + lo) mod 65536 = lo"
  using assms by simp_all

lemma nat_fold_lo:
  fixes hi lo :: nat
  assumes hi: "hi < 65536" and lo: "lo < 65536"
  defines "x \<equiv> hi * 65536 + lo"
  defines "c1 \<equiv> x div 65536 + x mod 65536"
  defines "f \<equiv> 65535 - (c1 + c1 div 65536) mod 65536"
  defines "y \<equiv> x + f"
  defines "d1 \<equiv> y div 65536 + y mod 65536"
  shows "y < 4294967296 \<and> (d1 + d1 div 65536) mod 65536 = 65535"
proof -
  have c1: "c1 = hi + lo" using lo by (simp add: c1_def x_def)
  have fin: "y < 4294967296 \<and> (d1 + d1 div 65536) mod 65536 = 65535"
    if y: "y = h * 65536 + l" and h: "h < 65536" and l: "l < 65536"
      and s: "h + l = 65535 \<or> h + l = 131070" for h l
  proof -
    have "d1 = h + l" unfolding d1_def y using l by simp
    moreover have "y < 4294967296" unfolding y using h l by simp
    ultimately show ?thesis using s by auto
  qed
  show ?thesis
  proof (cases "hi + lo < 65536")
    case True
    then have f: "f = 65535 - (hi + lo)" by (simp add: f_def c1)
    define l where "l = 65535 - hi"
    have "y = hi * 65536 + l" using True by (simp add: y_def x_def f l_def)
    then show ?thesis using hi by (intro fin[of hi l]) (auto simp: l_def)
  next
    case False
    define r where "r = hi + lo - 65536"
    have c1r: "c1 = 1 * 65536 + r" and r: "r < 65535"
      using False hi lo by (simp_all add: c1 r_def)
    have "c1 div 65536 = 1"
      unfolding c1r using r by (subst divmod_65536(1)) simp_all
    then have "c1 + c1 div 65536 = 1 * 65536 + (r + 1)"
      by (simp add: c1r)
    then have "(c1 + c1 div 65536) mod 65536 = r + 1"
      using r by (simp only: divmod_65536(2))
    then have "(c1 + c1 div 65536) mod 65536 = hi + lo - 65535"
      using False by (simp add: r_def)
    then have f: "f = 131070 - (hi + lo)" using False by (simp add: f_def)
    show ?thesis
    proof (cases "hi = 65535")
      case True
      have "y = hi * 65536 + 65535" using True False lo by (simp add: y_def x_def f)
      then show ?thesis using True by (intro fin[of hi 65535]) auto
    next
      case F2: False
      define l where "l = 65534 - hi"
      have "y = (hi + 1) * 65536 + l" using F2 False hi lo by (simp add: y_def x_def f l_def)
      then show ?thesis using hi F2 by (intro fin[of "hi + 1" l]) (auto simp: l_def)
    qed
  qed
qed

lemma nfold_self:
  assumes "x < 4294967296"
  shows "x + nfold x < 4294967296" and "nfold (x + nfold x) = 0"
proof -
  have hi: "x div 65536 < 65536" using assms by simp
  have lo: "x mod 65536 < 65536" by simp
  have x: "x div 65536 * 65536 + x mod 65536 = x" by simp
  from nat_fold_lo [OF hi lo, unfolded x]
  show "x + nfold x < 4294967296" and "nfold (x + nfold x) = 0"
    by (simp_all add: nfold_def Let_def)
qed

lemma fold16_self: "fold16 (X + ucast (fold16 X)) = 0"
proof -
  have b: "unat X + nfold (unat X) < 4294967296" "nfold (unat X + nfold (unat X)) = 0"
    using nfold_self [OF unat_lt_2p32 [of X]] by simp_all
  have "unat (X + ucast (fold16 X)) = unat X + nfold (unat X)"
    using b(1) by (simp add: unat_word_ariths unat_ucast_16_32 unat_fold16)
  then have "unat (fold16 (X + ucast (fold16 X))) = 0"
    using b(2) by (simp add: unat_fold16)
  then show ?thesis by (simp add: unat_0_iff)
qed

section \<open>The bytes of an encoded packet\<close>

lemma join_split16:
  "push_bit 8 (ucast (ucast (drop_bit 8 s) :: byte)) OR ucast (ucast (s AND 0xFF) :: byte) = s"
  for s :: "16 word"
proof -
  have m: "(0xFF :: 16 word) = mask 8" by (simp add: mask_eq_exp_minus_1)
  show ?thesis
    unfolding m by (rule bit_word_eqI) (auto simp: bit_simps)
qed

lemma replicate8: "replicate (8 + n) x = [x, x, x, x, x, x, x, x] @ replicate n x"
  by (simp add: replicate_add eval_nat_numeral)

lemma write16_hdr:
  "write16 (a0 # a1 # a2 # a3 # a4 # a5 # a6 # a7 # r) 2 v = a0 # a1 # ucast (drop_bit 8 v) # ucast (v AND 0xFF) # a4 # a5 # a6 # a7 # r"
  "write16 (a0 # a1 # a2 # a3 # a4 # a5 # a6 # a7 # r) 4 v = a0 # a1 # a2 # a3 # ucast (drop_bit 8 v) # ucast (v AND 0xFF) # a6 # a7 # r"
  "write16 (a0 # a1 # a2 # a3 # a4 # a5 # a6 # a7 # r) 6 v = a0 # a1 # a2 # a3 # a4 # a5 # ucast (drop_bit 8 v) # ucast (v AND 0xFF) # r"
  by (simp_all add: write16_def eval_nat_numeral)

lemma memcpy_hdr:
  "n \<le> length src \<Longrightarrow>
   memcpy (a0 # a1 # a2 # a3 # a4 # a5 # a6 # a7 # replicate n z) 8 src n = a0 # a1 # a2 # a3 # a4 # a5 # a6 # a7 # take n src"
  by (simp add: memcpy_def)

lemma icmp_encode_bytes:
  assumes "pkt_wf pkt"
  defines "t \<equiv> word_of_int (if type pkt = ICMP_REQUEST then request_type (GET_RULE pkt) else reply_type (GET_RULE pkt))"
  defines "pre \<equiv> icmp_hdr t 0 (id' pkt) (seqno pkt) @ payload_bytes pkt"
  shows "icmp_encode True pkt =
    Some (if use_checksum (GET_RULE pkt) \<noteq> 0
          then icmp_hdr t (checksum pre (8 + payload_len pkt)) (id' pkt) (seqno pkt) @ payload_bytes pkt
          else pre, 8 + int (payload_len pkt))"
proof -
  have n: "payload_len pkt \<le> length (payload_buf pkt)"
    using assms(1) by (auto simp: pkt_wf_def payload_buf_def split: option.splits)
  have nat8: "nat (8 + int (payload_len pkt)) = 8 + payload_len pkt" by simp
  show ?thesis
    unfolding icmp_encode_def Let_def ICMP_HDRLEN_def nat8 replicate8
    using n
    by (simp add: write16_hdr memcpy_hdr icmp_hdr_def t_def pre_def payload_bytes_def)
qed

section \<open>Checksum of an encoded packet\<close>

lemma checksum_fold: "checksum data (length data) = fold16 (wsum data)"
  by (simp add: checksum_def fold16_def Let_def checksum_loop_wsum)

lemma word16_split: "word16 (ucast (drop_bit 8 c)) (ucast (c AND 0xFF)) = ucast c" for c :: "16 word"
  by (simp add: word16_def join_split16)

lemma word16_zero: "word16 0 0 = 0"
  by (simp add: word16_def)

lemma wsum_hdr:
  "wsum (icmp_hdr t c i s @ pl) = word16 t 0 + ucast c + ucast i + ucast s + wsum pl"
  by (simp add: icmp_hdr_def word16_split add.assoc)

lemma wsum_hdr_checksum:
  "wsum (icmp_hdr t c i s @ pl) = wsum (icmp_hdr t 0 i s @ pl) + ucast c"
  by (simp add: wsum_hdr)

lemma length_icmp_hdr: "length (icmp_hdr t c i s) = 8"
  by (simp add: icmp_hdr_def)

lemma checksum_hdr_zero:
  assumes "len = 8 + length pl"
  shows "checksum (icmp_hdr t (checksum (icmp_hdr t 0 i s @ pl) len) i s @ pl) len = 0"
proof -
  have l: "len = length (icmp_hdr t c i s @ pl)" for c
    using assms by (simp add: length_icmp_hdr)
  have "checksum (icmp_hdr t 0 i s @ pl) len = fold16 (wsum (icmp_hdr t 0 i s @ pl))"
    by (subst l [of 0]) (rule checksum_fold)
  moreover have "checksum (icmp_hdr t c i s @ pl) len = fold16 (wsum (icmp_hdr t 0 i s @ pl) + ucast c)" for c
    by (subst l [of c], subst checksum_fold, subst wsum_hdr_checksum) (rule refl)
  ultimately show ?thesis
    by (simp only: fold16_self)
qed

lemma wsum_pad:
  "odd (length xs) \<Longrightarrow> wsum (xs @ [0]) = wsum xs"
  by (induction xs rule: wsum.induct) simp_all

lemma length_payload_bytes: "pkt_wf pkt \<Longrightarrow> length (payload_bytes pkt) = payload_len pkt"
  by (auto simp: pkt_wf_def payload_bytes_def payload_buf_def split: option.splits)

lemma GET_RULE_v4: "peer_family pkt = AF_INET \<Longrightarrow> GET_RULE pkt = icmpv4"
  by (simp add: GET_RULE_def ICMP_ADDRFAMILY_def)

lemma GET_RULE_v6: "peer_family pkt \<noteq> AF_INET \<Longrightarrow> GET_RULE pkt = icmpv6"
  by (simp add: GET_RULE_def ICMP_ADDRFAMILY_def)

lemma icmp_encode_checksum_zero:
  assumes "pkt_wf pkt" and "use_checksum (GET_RULE pkt) \<noteq> 0"
    and "icmp_encode True pkt = Some (data, len)"
  shows "checksum data (nat len) = 0"
proof -
  have n: "8 + payload_len pkt = 8 + length (payload_bytes pkt)"
    using assms(1) by (simp add: length_payload_bytes)
  have m: "nat (8 + int (payload_len pkt)) = 8 + payload_len pkt" by simp
  from assms(3) assms(2) show ?thesis
    unfolding icmp_encode_bytes [OF assms(1)]
    by (auto simp: m checksum_hdr_zero [OF n])
qed

section \<open>Parsing a buffer made of a header and a payload\<close>

lemma nth_hdr:
  "(icmp_hdr t c i s @ pl) ! 0 = t"
  "(icmp_hdr t c i s @ pl) ! 4 = ucast (drop_bit 8 i)"
  "(icmp_hdr t c i s @ pl) ! 5 = ucast (i AND 0xFF)"
  "(icmp_hdr t c i s @ pl) ! 6 = ucast (drop_bit 8 s)"
  "(icmp_hdr t c i s @ pl) ! 7 = ucast (s AND 0xFF)"
  by (simp_all add: icmp_hdr_def)

lemma read16_hdr:
  "read16 (icmp_hdr t c i s @ pl) 4 = i"
  "read16 (icmp_hdr t c i s @ pl) 6 = s"
proof -
  have "(4 :: nat) + 1 = 5" "(6 :: nat) + 1 = 7" by simp_all
  then show "read16 (icmp_hdr t c i s @ pl) 4 = i" "read16 (icmp_hdr t c i s @ pl) 6 = s"
    unfolding read16_def by (simp_all only: nth_hdr join_split16)
qed

lemma drop8_hdr: "drop 8 (icmp_hdr t c i s @ pl) = pl"
  by (simp add: icmp_hdr_def)

lemma icmp_parse_stripped_hdr:
  assumes ck: "use_checksum rule \<noteq> 0 \<longrightarrow> checksum (icmp_hdr t c i s @ pl) (8 + length pl) = 0"
    and t: "uint t = (if ty = ICMP_REQUEST then request_type rule else reply_type rule)"
    and d: "request_type rule \<noteq> reply_type rule"
  shows "icmp_parse_stripped rule True rcv (icmp_hdr t c i s @ pl) (8 + int (length pl)) =
     Returned 0 (rcv\<lparr> type := ty, id' := i, seqno := s,
                     payload := (if pl = [] then None else Some pl), payload_len := length pl \<rparr>)"
proof -
  have m: "nat (8 + int (length pl)) = 8 + length pl" by simp
  show ?thesis
    using ck t d
    by (cases ty)
      (auto simp: icmp_parse_stripped_def icmp_parse_fields_def ICMP_HDRLEN_def m
        read16_hdr nth_hdr length_icmp_hdr Let_def)
qed

lemma icmp_parse_strip:
  assumes s: "strip_iphdr (GET_RULE pkt) \<noteq> 0"
    and h: "iphdr \<noteq> []" "int (length iphdr) = 4 * uint (hd iphdr AND 0x0f)"
    and l: "0 \<le> len"
  shows "icmp_parse m pkt (iphdr @ seg) (int (length iphdr) + len) =
         icmp_parse_stripped (GET_RULE pkt) m pkt seg len"
proof -
  have "(iphdr @ seg) ! 0 = hd iphdr"
    using h(1) by (simp add: nth_append hd_conv_nth)
  then have hl: "push_bit 2 (uint ((iphdr @ seg) ! 0 AND 0x0f)) = int (length iphdr)"
    using h(2) by (simp add: push_bit_eq_mult)
  have "int (length iphdr) + len \<noteq> 0"
    using h(1) l by (cases iphdr) simp_all
  then show ?thesis
    unfolding icmp_parse_def Let_def hl using s l by simp
qed

lemma icmp_parse_no_strip:
  "strip_iphdr (GET_RULE pkt) = 0 \<Longrightarrow>
     icmp_parse m pkt data len = icmp_parse_stripped (GET_RULE pkt) m pkt data len"
  by (simp add: icmp_parse_def)

lemma rule_cases:
  obtains "GET_RULE pkt = icmpv4" "peer_family pkt = AF_INET"
  | "GET_RULE pkt = icmpv6" "peer_family pkt \<noteq> AF_INET"
  by (cases "peer_family pkt = AF_INET") (simp_all add: GET_RULE_v4 GET_RULE_v6)

lemma rule_simps:
  "request_type icmpv4 = 8" "reply_type icmpv4 = 0" "use_checksum icmpv4 = 1" "strip_iphdr icmpv4 = 1"
  "request_type icmpv6 = 128" "reply_type icmpv6 = 129" "use_checksum icmpv6 = 0" "strip_iphdr icmpv6 = 0"
  by (simp_all add: icmpv4_def icmpv6_def ICMP_ECHO_def ICMP_ECHOREPLY_def
      ICMP6_ECHO_REQUEST_def ICMP6_ECHO_REPLY_def)

lemma icmp_encode_parse_stripped:
  assumes wf: "pkt_wf pkt" and fam: "peer_family rcv = peer_family pkt"
    and e: "icmp_encode True pkt = Some (data, len)"
  shows "icmp_parse_stripped (GET_RULE rcv) True rcv data len =
     Returned 0 (rcv\<lparr> type := type pkt, id' := id' pkt, seqno := seqno pkt,
        payload := (if payload_len pkt = 0 then None else Some (payload_bytes pkt)),
        payload_len := payload_len pkt \<rparr>)"
proof -
  define rule where "rule = GET_RULE pkt"
  define t :: byte where
    "t = word_of_int (if type pkt = ICMP_REQUEST then request_type rule else reply_type rule)"
  define c where "c = (if use_checksum rule \<noteq> 0
     then checksum (icmp_hdr t 0 (id' pkt) (seqno pkt) @ payload_bytes pkt) (8 + payload_len pkt) else 0)"
  have r: "GET_RULE rcv = rule"
    using fam by (simp add: GET_RULE_def ICMP_ADDRFAMILY_def rule_def)
  have n: "length (payload_bytes pkt) = payload_len pkt"
    using wf by (rule length_payload_bytes)
  have data: "data = icmp_hdr t c (id' pkt) (seqno pkt) @ payload_bytes pkt"
    and len: "len = 8 + int (length (payload_bytes pkt))"
    using e unfolding icmp_encode_bytes [OF wf]
    by (auto simp: t_def c_def rule_def n)
  have ck: "use_checksum rule \<noteq> 0 \<longrightarrow>
      checksum (icmp_hdr t c (id' pkt) (seqno pkt) @ payload_bytes pkt) (8 + length (payload_bytes pkt)) = 0"
    using checksum_hdr_zero [of "8 + payload_len pkt" "payload_bytes pkt" t "id' pkt" "seqno pkt"]
    by (simp add: c_def n)
  have rt: "uint t = (if type pkt = ICMP_REQUEST then request_type rule else reply_type rule)"
    and d: "request_type rule \<noteq> reply_type rule"
    unfolding t_def rule_def by (cases pkt rule: rule_cases; simp add: rule_simps)+
  have e: "payload_bytes pkt = [] \<longleftrightarrow> payload_len pkt = 0"
    using n by auto
  show ?thesis
    unfolding r data len
    by (subst icmp_parse_stripped_hdr [OF ck rt d]) (simp add: n e)
qed

section \<open>Outcomes of the parser\<close>

lemma checksum_eval: "len = length data \<Longrightarrow> checksum data len = fold16 (wsum data)"
  by (simp add: checksum_fold)

lemma icmp_parse_fields_True:
  "\<exists>pkt'. icmp_parse_fields True pkt data len = Returned 0 pkt'"
  by (simp add: icmp_parse_fields_def Let_def)

lemma icmp_parse_stripped_rejection:
  assumes "seg = drop hl buf" "hl \<le> length buf"
  shows "case spec_segment_rejection rule seg of
           Some r \<Rightarrow> icmp_parse_stripped rule m pkt seg (int (length buf) - int hl) = Returned (error_code r) pkt
         | None \<Rightarrow> \<exists>pkt'. icmp_parse_stripped rule True pkt seg (int (length buf) - int hl) = Returned 0 pkt'"
proof -
  have l: "int (length buf) - int hl = int (length seg)"
    using assms by simp
  have h: "seg ! 0 = hd seg" if "\<not> length seg < 8"
    using that by (cases seg) simp_all
  show ?thesis
    unfolding l
    by (auto simp: spec_segment_rejection_def icmp_parse_stripped_def ICMP_HDRLEN_def error_code_def h
        icmp_parse_fields_True)
qed

lemma icmp_parse_fields_result:
  assumes "8 \<le> length seg"
  shows "icmp_parse_fields True pkt seg (int (length seg)) =
     Returned 0 (pkt\<lparr> id' := read16 seg 4, seqno := read16 seg 6,
        payload := (if length seg = 8 then None else Some (drop 8 seg)),
        payload_len := length seg - 8 \<rparr>)"
proof -
  have "nat (int (length seg) - 8) = length seg - 8" by simp
  then show ?thesis
    using assms by (auto simp: icmp_parse_fields_def ICMP_HDRLEN_def Let_def)
qed

lemma icmp_parse_fields_empty:
  assumes "length seg = 8"
  shows "icmp_parse_fields m pkt seg 8 =
     Returned 0 (pkt\<lparr> id' := read16 seg 4, seqno := read16 seg 6,
        payload := None, payload_len := 0 \<rparr>)"
  using assms by (simp add: icmp_parse_fields_def ICMP_HDRLEN_def Let_def)

lemma icmp_parse_stripped_cases:
  assumes "8 \<le> length seg" and "use_checksum rule \<noteq> 0 \<longrightarrow> checksum seg (length seg) = 0"
  shows "icmp_parse_stripped rule m pkt seg (int (length seg)) =
     (if uint (hd seg) = request_type rule
        then icmp_parse_fields m (pkt\<lparr> type := ICMP_REQUEST \<rparr>) seg (int (length seg))
      else if uint (hd seg) = reply_type rule
        then icmp_parse_fields m (pkt\<lparr> type := ICMP_REPLY \<rparr>) seg (int (length seg))
      else Returned (- 5) pkt)"
proof -
  have "seg ! 0 = hd seg" using assms(1) by (cases seg) simp_all
  then show ?thesis
    using assms by (auto simp: icmp_parse_stripped_def ICMP_HDRLEN_def)
qed

lemma uint_eq_numeralD: "uint b = numeral n \<Longrightarrow> b = numeral n" for b :: byte
proof -
  assume "uint b = numeral n"
  then have "word_of_int (uint b) = (word_of_int (numeral n) :: byte)" by (simp only:)
  then show "b = numeral n" by (simp only: word_of_int_uint word_of_int_numeral)
qed

lemma uint_byte_eq:
  "uint b = 8 \<longleftrightarrow> b = 8" "uint b = 0 \<longleftrightarrow> b = 0"
  "uint b = 128 \<longleftrightarrow> b = 128" "uint b = 129 \<longleftrightarrow> b = 129" for b :: byte
proof -
  show "uint b = 8 \<longleftrightarrow> b = 8"
    using uint_eq_numeralD [of b] by fastforce
  show "uint b = 0 \<longleftrightarrow> b = 0"
    by (rule unsigned_eq_0_iff)
  show "uint b = 128 \<longleftrightarrow> b = 128"
    using uint_eq_numeralD [of b] by fastforce
  show "uint b = 129 \<longleftrightarrow> b = 129"
    using uint_eq_numeralD [of b] by fastforce
qed

lemma icmp_parse_strip_v4:
  assumes "peer_family pkt = AF_INET" "iphdr \<noteq> []" "length iphdr = 4 * unat (hd iphdr AND 0x0f)"
  shows "icmp_parse m pkt (iphdr @ seg) (int (length (iphdr @ seg))) =
         icmp_parse_stripped icmpv4 m pkt seg (int (length seg))"
proof -
  have "int (length iphdr) = 4 * uint (hd iphdr AND 0x0f)"
    using arg_cong [OF assms(3), of int] by (simp only: uint_nat of_nat_mult of_nat_numeral)
  then have "icmp_parse m pkt (iphdr @ seg) (int (length iphdr) + int (length seg)) =
         icmp_parse_stripped (GET_RULE pkt) m pkt seg (int (length seg))"
    using assms(1,2) by (intro icmp_parse_strip) (simp_all add: GET_RULE_v4 rule_simps)
  then show ?thesis
    using assms(1) by (simp add: GET_RULE_v4)
qed

lemma icmp_parse_v6:
  "peer_family pkt \<noteq> AF_INET \<Longrightarrow>
     icmp_parse m pkt data len = icmp_parse_stripped icmpv6 m pkt data len"
  by (simp add: icmp_parse_no_strip GET_RULE_v6 rule_simps)

lemma icmp_parse_fields_type:
  "8 \<le> length seg \<Longrightarrow>
     \<exists>pkt'. icmp_parse_fields True pkt seg (int (length seg)) = Returned 0 pkt' \<and> type pkt' = type pkt"
  by (simp add: icmp_parse_fields_result)

lemma icmp_parse_stripped_type:
  assumes "8 \<le> length seg" and "use_checksum rule \<noteq> 0 \<longrightarrow> checksum seg (length seg) = 0"
  shows "uint (hd seg) \<noteq> request_type rule \<and> uint (hd seg) \<noteq> reply_type rule \<longrightarrow>
           icmp_parse_stripped rule m pkt seg (int (length seg)) = Returned (- 5) pkt"
    and "uint (hd seg) = request_type rule \<longrightarrow>
           (\<exists>pkt'. icmp_parse_stripped rule True pkt seg (int (length seg)) = Returned 0 pkt'
               \<and> type pkt' = ICMP_REQUEST)"
    and "uint (hd seg) \<noteq> request_type rule \<and> uint (hd seg) = reply_type rule \<longrightarrow>
           (\<exists>pkt'. icmp_parse_stripped rule True pkt seg (int (length seg)) = Returned 0 pkt'
               \<and> type pkt' = ICMP_REPLY)"
  using icmp_parse_fields_type [OF assms(1), of "pkt\<lparr> type := ICMP_REQUEST \<rparr>"]
    icmp_parse_fields_type [OF assms(1), of "pkt\<lparr> type := ICMP_REPLY \<rparr>"]
  by (simp_all add: icmp_parse_stripped_cases [OF assms])

lemma icmp_encode_True: "\<exists>data len. icmp_encode True pkt = Some (data, len)"
  by (simp add: icmp_encode_def Let_def)

lemma icmp_encode_False: "icmp_encode False pkt = None"
  by (simp add: icmp_encode_def Let_def)

lemma icmp_parse_fields_code:
  "icmp_parse_fields m pkt data len = Returned c pkt' \<Longrightarrow> c = 0"
  by (auto simp: icmp_parse_fields_def Let_def split: if_splits)

lemma icmp_parse_stripped_failure:
  assumes "icmp_parse_stripped rule m pkt data len = Returned c pkt'" and "c \<noteq> 0"
  shows "pkt' = pkt \<and> c \<in> {- 1, - 2, - 5}"
  using assms
  by (auto simp: icmp_parse_stripped_def split: if_splits dest: icmp_parse_fields_code)

section \<open>The code's checksum and the RFC 1071 checksum\<close>

lemma unat_word16: "unat (word16 a b) = 256 * unat a + unat b"
proof -
  have d: "(push_bit 8 (ucast a) :: 16 word) AND ucast b = 0"
    by (rule bit_word_eqI) (auto simp: bit_simps dest: bit_imp_le_length)
  have la: "unat a < 256" and lb: "unat b < 256"
    using unsigned_less [of a] unsigned_less [of b] by simp_all
  have ua: "unat (ucast a :: 16 word) = unat a" and ub: "unat (ucast b :: 16 word) = unat b"
    using la lb by (simp_all add: unsigned_ucast_eq take_bit_nat_eq_self_iff)
  have "unat (push_bit 8 (ucast a) :: 16 word) = 256 * unat a"
    using la by (simp add: push_bit_eq_mult unat_word_ariths ua)
  moreover have "(push_bit 8 (ucast a) :: 16 word) OR ucast b = push_bit 8 (ucast a) + ucast b"
    using disjunctive_add_eq_or [OF d] by simp
  ultimately have "unat ((push_bit 8 (ucast a) :: 16 word) OR ucast b) = 256 * unat a + unat b"
    using la lb by (simp add: unat_word_ariths ub)
  then show ?thesis
    by (simp add: word16_def unat_ucast_16_32)
qed

lemma unat_wsum: "unat (wsum xs) = rfc1071_sum xs mod 4294967296"
proof (induction xs rule: wsum.induct)
  case 1
  show ?case by simp
next
  case (2 a)
  have "unat a < 256" using unsigned_less [of a] by simp
  then have "256 * unat a < 4294967296" by simp
  then show ?case by (simp add: unat_word16)
next
  case (3 a b rest)
  have "unat (wsum (a # b # rest)) = (unat (word16 a b) + unat (wsum rest)) mod 4294967296"
    by (simp add: unat_word_ariths)
  also have "\<dots> = (256 * unat a + unat b + rfc1071_sum rest mod 4294967296) mod 4294967296"
    by (simp only: unat_word16 3)
  also have "\<dots> = (256 * unat a + unat b + rfc1071_sum rest) mod 4294967296"
    by (rule mod_add_right_eq)
  finally show ?case by simp
qed

lemma rfc1071_sum_le: "rfc1071_sum xs \<le> 65535 * ((length xs + 1) div 2)"
proof (induction xs rule: rfc1071_sum.induct)
  case 1
  show ?case by simp
next
  case (2 a)
  have "unat a < 256" using unsigned_less [of a] by simp
  then show ?case by simp
next
  case (3 a b rest)
  have "unat a < 256" "unat b < 256"
    using unsigned_less [of a] unsigned_less [of b] by simp_all
  with 3 show ?case by simp
qed

lemma rfc1071_sum_bounded:
  assumes "length xs \<le> 131072"
  shows "rfc1071_sum xs < 4294967296"
proof -
  have "(length xs + 1) div 2 \<le> 65536" using assms by simp
  then have "65535 * ((length xs + 1) div 2) \<le> 65535 * 65536" by (rule mult_le_mono2)
  with rfc1071_sum_le [of xs] show ?thesis by simp
qed

lemma end_around_carry_small: "s < 65536 \<Longrightarrow> end_around_carry s = s"
  by (simp add: end_around_carry.simps)

lemma end_around_carry_step:
  "\<not> s < 65536 \<Longrightarrow> end_around_carry s = end_around_carry (s div 65536 + s mod 65536)"
  by (subst end_around_carry.simps) simp

lemma nfold_end_around_carry:
  assumes "x < 4294967296"
  shows "nfold x = 65535 - end_around_carry x"
proof (cases "x < 65536")
  case True
  then show ?thesis by (simp add: nfold_def end_around_carry_small)
next
  case False
  define c1 where "c1 = x div 65536 + x mod 65536"
  have hi: "x div 65536 < 65536" using assms by simp
  have lo: "x mod 65536 < 65536" by simp
  have c1: "c1 < 131071" unfolding c1_def using hi lo by linarith
  have e: "end_around_carry x = end_around_carry c1"
    unfolding c1_def using False by (rule end_around_carry_step)
  show ?thesis
  proof (cases "c1 < 65536")
    case True
    then show ?thesis
      by (simp add: nfold_def Let_def e end_around_carry_small flip: c1_def)
  next
    case F: False
    define r where "r = c1 - 65536"
    have c1r: "c1 = 1 * 65536 + r" and r: "r < 65535"
      using F c1 by (simp_all add: r_def)
    have d: "c1 div 65536 = 1" and m: "c1 mod 65536 = r"
      unfolding c1r using r by (simp_all only: divmod_65536)
    have "end_around_carry c1 = end_around_carry (1 + r)"
      using end_around_carry_step [OF F] by (simp only: d m)
    then have e2: "end_around_carry c1 = r + 1"
      using r by (simp add: end_around_carry_small)
    have "c1 + c1 div 65536 = c1 + 1" by (simp only: d)
    also have "\<dots> = 1 * 65536 + (r + 1)" by (subst c1r) simp
    finally have "c1 + c1 div 65536 = 1 * 65536 + (r + 1)" .
    then have "(c1 + c1 div 65536) mod 65536 = r + 1"
      using r by (simp only: divmod_65536(2))
    then show ?thesis
      by (simp add: nfold_def Let_def e e2 flip: c1_def)
  qed
qed

lemma end_around_carry_le: "end_around_carry s \<le> 65535"
proof (induction s rule: end_around_carry.induct)
  case (1 s)
  then show ?case
    by (cases "s < 65536") (simp_all add: end_around_carry_small end_around_carry_step)
qed

lemma checksum_rfc1071:
  assumes "rfc1071_sum xs < 4294967296"
  shows "checksum xs (length xs) = rfc1071_checksum xs"
proof -
  have "unat (wsum xs) = rfc1071_sum xs"
    using assms by (simp add: unat_wsum)
  then have "unat (checksum xs (length xs)) = 65535 - end_around_carry (rfc1071_sum xs)"
    using assms by (simp add: checksum_fold unat_fold16 nfold_end_around_carry)
  moreover have "unat (rfc1071_checksum xs) = 65535 - end_around_carry (rfc1071_sum xs)"
    by (simp add: rfc1071_checksum_def unat_of_nat)
  ultimately show ?thesis
    by (simp add: word_unat_eq_iff)
qed

lemma rfc1071_sum_append:
  "even (length xs) \<Longrightarrow> rfc1071_sum (xs @ ys) = rfc1071_sum xs + rfc1071_sum ys"
  by (induction xs rule: rfc1071_sum.induct) simp_all

lemma wsum_append:
  "even (length xs) \<Longrightarrow> wsum (xs @ ys) = wsum xs + wsum ys"
  by (induction xs rule: wsum.induct) simp_all

lemma rfc1071_sum_replicate:
  "rfc1071_sum (replicate (2 * n) b) = n * (256 * unat b + unat b)"
  by (induction n) simp_all

lemma wsum_replicate:
  "wsum (replicate (2 * n) b) = of_nat n * word16 b b"
  by (induction n) (simp_all add: algebra_simps)

lemma checksum_rfc1071_bounded:
  "length xs \<le> 131072 \<Longrightarrow> checksum xs (length xs) = rfc1071_checksum xs"
  by (rule checksum_rfc1071) (rule rfc1071_sum_bounded)

section \<open>The rejections in the order of the specification\<close>

text \<open>
  The five causes have five different codes, none of them 0.  For every buffer with its
  true length the first refusal the specification's steps find decides what \<open>icmp_parse\<close>
  returns, whatever \<open>malloc\<close> would do; when no step refuses and \<open>malloc\<close> succeeds the
  call returns 0.  Each of the five codes, and success, is reached.
\<close>

lemma icmp_parse_rejections:
  "distinct (map error_code [EmptyBuffer, TruncatedIPHeader, ShortHeader, ChecksumMismatch, UnknownType])
   \<and> 0 \<notin> set (map error_code [EmptyBuffer, TruncatedIPHeader, ShortHeader, ChecksumMismatch, UnknownType])
   \<and> (case spec_decode_rejection (GET_RULE pkt) data of
         Some r \<Rightarrow> icmp_parse m pkt data (int (length data)) = Returned (error_code r) pkt
       | None \<Rightarrow> \<exists>pkt'. icmp_parse True pkt data (int (length data)) = Returned 0 pkt')"
proof (intro conjI)
  show "distinct (map error_code [EmptyBuffer, TruncatedIPHeader, ShortHeader, ChecksumMismatch, UnknownType])"
    and "0 \<notin> set (map error_code [EmptyBuffer, TruncatedIPHeader, ShortHeader, ChecksumMismatch, UnknownType])"
    by (simp_all add: error_code_def)
  define rule where "rule = GET_RULE pkt"
  show "case spec_decode_rejection (GET_RULE pkt) data of
         Some r \<Rightarrow> icmp_parse m pkt data (int (length data)) = Returned (error_code r) pkt
       | None \<Rightarrow> \<exists>pkt'. icmp_parse True pkt data (int (length data)) = Returned 0 pkt'"
  proof (cases "strip_iphdr rule \<noteq> 0")
    case False
    then have p: "icmp_parse m pkt data (int (length data)) =
        icmp_parse_stripped rule m pkt data (int (length data))" for m
      by (simp add: icmp_parse_def rule_def)
    from False show ?thesis
      using icmp_parse_stripped_rejection [where seg = data and hl = 0 and buf = data and rule = rule and m = m and pkt = pkt]
      by (simp add: spec_decode_rejection_def p cong: option.case_cong flip: rule_def)
  next
    case strip: True
    show ?thesis
    proof (cases "data = []")
      case True
      with strip show ?thesis
        by (simp add: spec_decode_rejection_def icmp_parse_def error_code_def flip: rule_def)
    next
      case ne: False
      define hl where "hl = 4 * unat (hd data AND 0x0f)"
      have hd: "data ! 0 = hd data" using ne by (simp add: hd_conv_nth)
      have hl: "push_bit 2 (uint (data ! 0 AND 0x0f)) = int hl"
        by (simp add: hl_def hd push_bit_eq_mult)
      show ?thesis
      proof (cases "length data < hl")
        case True
        with strip ne show ?thesis
          by (simp add: spec_decode_rejection_def icmp_parse_def error_code_def hl Let_def
              flip: rule_def hl_def)
      next
        case False
        then have p: "icmp_parse m pkt data (int (length data)) =
            icmp_parse_stripped rule m pkt (drop hl data) (int (length data) - int hl)" for m
          using strip ne by (simp add: icmp_parse_def hl Let_def flip: rule_def)
        from False strip ne show ?thesis
          using icmp_parse_stripped_rejection [where seg = "drop hl data" and hl = hl and buf = data and rule = rule and m = m and pkt = pkt]
          by (simp add: spec_decode_rejection_def p Let_def cong: option.case_cong flip: rule_def hl_def)
      qed
    qed
  qed
qed

lemma icmp_parse_rejections_reached:
  "(let v4 = \<lparr> peer_family = 2, peer_len = 16, type = ICMP_REPLY, id' = 0, seqno = 0,
                payload = None, payload_len = 0 \<rparr>;
        v6 = \<lparr> peer_family = 10, peer_len = 28, type = ICMP_REPLY, id' = 0, seqno = 0,
                payload = None, payload_len = 0 \<rparr>
    in icmp_parse False v4 [] 0 = Returned (- 3) v4
     \<and> icmp_parse False v4 [0x45, 0, 0, 0] 4 = Returned (- 4) v4
     \<and> icmp_parse False v6 [128, 0, 0, 0, 0, 0, 0] 7 = Returned (- 1) v6
     \<and> icmp_parse False v4 [0x41, 0, 0, 0, 8, 0, 0, 0, 0, 0, 0, 0] 12 = Returned (- 2) v4
     \<and> icmp_parse False v6 [8, 0, 0, 0, 0, 0, 0, 0, 1] 9 = Returned (- 5) v6
     \<and> (\<exists>pkt'. icmp_parse True v6 [128, 0, 0, 0, 0, 0, 0, 0, 1] 9 = Returned 0 pkt'))"
  using
    icmp_parse_rejections [where m = False and data = "[]" and pkt = "\<lparr> peer_family = 2, peer_len = 16,
      type = ICMP_REPLY, id' = 0, seqno = 0, payload = None, payload_len = 0 \<rparr>"]
    icmp_parse_rejections [where m = False and data = "[0x45, 0, 0, 0]" and pkt = "\<lparr> peer_family = 2, peer_len = 16,
      type = ICMP_REPLY, id' = 0, seqno = 0, payload = None, payload_len = 0 \<rparr>"]
    icmp_parse_rejections [where m = False and data = "[128, 0, 0, 0, 0, 0, 0]" and pkt = "\<lparr> peer_family = 10, peer_len = 28,
      type = ICMP_REPLY, id' = 0, seqno = 0, payload = None, payload_len = 0 \<rparr>"]
    icmp_parse_rejections [where m = False and data = "[0x41, 0, 0, 0, 8, 0, 0, 0, 0, 0, 0, 0]" and pkt = "\<lparr> peer_family = 2, peer_len = 16,
      type = ICMP_REPLY, id' = 0, seqno = 0, payload = None, payload_len = 0 \<rparr>"]
    icmp_parse_rejections [where m = False and data = "[8, 0, 0, 0, 0, 0, 0, 0, 1]" and pkt = "\<lparr> peer_family = 10, peer_len = 28,
      type = ICMP_REPLY, id' = 0, seqno = 0, payload = None, payload_len = 0 \<rparr>"]
    icmp_parse_rejections [where m = False and data = "[128, 0, 0, 0, 0, 0, 0, 0, 1]" and pkt = "\<lparr> peer_family = 10, peer_len = 28,
      type = ICMP_REPLY, id' = 0, seqno = 0, payload = None, payload_len = 0 \<rparr>"]
  by (simp add: spec_decode_rejection_def spec_segment_rejection_def error_code_def GET_RULE_def
      ICMP_ADDRFAMILY_def AF_INET_def rule_simps checksum_eval fold16_def word16_def Let_def)

section \<open>Claims\<close>

text \<open>
  Claim C1 (round trip).  For every packet the encoder can be given, with either type, any
  identifier, sequence number and payload, and a receiving packet of the same family,
  encoding succeeds when \<open>calloc\<close> does, and parsing the encoded bytes returns 0 and
  stores the type, identifier, sequence number and payload bytes of the original: from the
  ICMP header on (the strip step skipped), through \<open>icmp_parse\<close> itself for a family
  other than IPv4, and through \<open>icmp_parse\<close> with an IP header in front for IPv4, the
  header's length being four times the low nibble of its first byte.  An empty payload comes
  back as the \<open>NULL\<close> pointer with length 0.  \<open>malloc\<close> is taken to succeed.
\<close>

theorem icmp_roundtrip:
  assumes wf: "pkt_wf pkt" and fam: "peer_family rcv = peer_family pkt"
  shows "\<exists>data len. icmp_encode True pkt = Some (data, len) \<and>
     (let decoded = rcv\<lparr> type := type pkt, id' := id' pkt, seqno := seqno pkt,
        payload := (if payload_len pkt = 0 then None else Some (payload_bytes pkt)),
        payload_len := payload_len pkt \<rparr>
      in icmp_parse_stripped (GET_RULE rcv) True rcv data len = Returned 0 decoded \<and>
         (peer_family pkt \<noteq> AF_INET \<longrightarrow> icmp_parse True rcv data len = Returned 0 decoded) \<and>
         (peer_family pkt = AF_INET \<and> iphdr \<noteq> [] \<and> int (length iphdr) = 4 * uint (hd iphdr AND 0x0f) \<longrightarrow>
            icmp_parse True rcv (iphdr @ data) (int (length iphdr) + len) = Returned 0 decoded))"
proof -
  obtain data len where e: "icmp_encode True pkt = Some (data, len)" and l: "0 \<le> len"
    by (simp add: icmp_encode_bytes [OF wf])
  note p = icmp_encode_parse_stripped [OF wf fam e]
  have v6: "icmp_parse True rcv data len = icmp_parse_stripped (GET_RULE rcv) True rcv data len"
    if "peer_family pkt \<noteq> AF_INET"
    using that fam by (intro icmp_parse_no_strip) (simp add: GET_RULE_v6 rule_simps)
  have v4: "icmp_parse True rcv (iphdr @ data) (int (length iphdr) + len) =
       icmp_parse_stripped (GET_RULE rcv) True rcv data len"
    if "peer_family pkt = AF_INET" "iphdr \<noteq> []" "int (length iphdr) = 4 * uint (hd iphdr AND 0x0f)"
    using that fam l by (intro icmp_parse_strip) (simp_all add: GET_RULE_v4 rule_simps)
  show ?thesis
    using e p v6 v4 by (auto simp: Let_def)
qed

theorem icmp_roundtrip_witness:
  "(let pkt = \<lparr> peer_family = 2, peer_len = 16, type = ICMP_REQUEST, id' = 0x1234, seqno = 1,
                 payload = Some [0xAA, 0xBB, 0xCC], payload_len = 3 \<rparr>;
        rcv = \<lparr> peer_family = 2, peer_len = 16, type = ICMP_REPLY, id' = 0, seqno = 0,
                 payload = None, payload_len = 0 \<rparr>;
        iphdr = 0x45 # replicate 19 0;
        decoded = rcv\<lparr> type := ICMP_REQUEST, id' := 0x1234, seqno := 1,
                         payload := Some [0xAA, 0xBB, 0xCC], payload_len := 3 \<rparr>
    in pkt_wf pkt \<and> peer_family rcv = peer_family pkt \<and> peer_family pkt = AF_INET
       \<and> iphdr \<noteq> [] \<and> int (length iphdr) = 4 * uint (hd iphdr AND 0x0f)
       \<and> (\<exists>data len. icmp_encode True pkt = Some (data, len)
            \<and> icmp_parse_stripped (GET_RULE rcv) True rcv data len = Returned 0 decoded
            \<and> icmp_parse True rcv (iphdr @ data) (int (length iphdr) + len) = Returned 0 decoded))
   \<and> (let pkt = \<lparr> peer_family = 10, peer_len = 28, type = ICMP_REPLY, id' = 0xBEEF, seqno = 7,
                 payload = None, payload_len = 0 \<rparr>;
        rcv = \<lparr> peer_family = 10, peer_len = 28, type = ICMP_REQUEST, id' = 0, seqno = 0,
                 payload = Some [1], payload_len = 1 \<rparr>;
        decoded = rcv\<lparr> type := ICMP_REPLY, id' := 0xBEEF, seqno := 7,
                         payload := None, payload_len := 0 \<rparr>
    in pkt_wf pkt \<and> peer_family rcv = peer_family pkt \<and> peer_family pkt \<noteq> AF_INET
       \<and> (\<exists>data len. icmp_encode True pkt = Some (data, len)
            \<and> icmp_parse_stripped (GET_RULE rcv) True rcv data len = Returned 0 decoded
            \<and> icmp_parse True rcv data len = Returned 0 decoded))"
  using
    icmp_roundtrip [of "\<lparr> peer_family = 2, peer_len = 16, type = ICMP_REQUEST, id' = 0x1234, seqno = 1,
                 payload = Some [0xAA, 0xBB, 0xCC], payload_len = 3 \<rparr>"
       "\<lparr> peer_family = 2, peer_len = 16, type = ICMP_REPLY, id' = 0, seqno = 0,
                 payload = None, payload_len = 0 \<rparr>" "0x45 # replicate 19 0"]
    icmp_roundtrip [of "\<lparr> peer_family = 10, peer_len = 28, type = ICMP_REPLY, id' = 0xBEEF, seqno = 7,
                 payload = None, payload_len = 0 \<rparr>"
       "\<lparr> peer_family = 10, peer_len = 28, type = ICMP_REQUEST, id' = 0, seqno = 0,
                 payload = Some [1], payload_len = 1 \<rparr>" "[]"]
  by (simp add: pkt_wf_def AF_INET_def payload_bytes_def payload_buf_def Let_def)

text \<open>
  Claim C2 (checksum self-consistency), amended.  For every IPv4 packet the encoder can be
  given whose encoded length \<open>8 + payload_len\<close> is at most 131072 bytes, the RFC 1071
  checksum of the whole encoded buffer, the stored checksum field included, is zero, and
  on every buffer of at most 131072 bytes the source's \<open>checksum\<close> is the RFC 1071
  checksum.  Beyond that length the 32-bit accumulator may wrap: the source's \<open>checksum\<close>
  of the encoded buffer is still zero for every length, but it need not be the RFC 1071
  checksum any more.  For a buffer of odd length the checksum is the one of the buffer
  with a zero byte appended: the last byte is the high byte of a word whose low byte is
  zero.
\<close>

theorem checksum_self_consistency:
  "(pkt_wf pkt \<and> peer_family pkt = AF_INET \<and> 8 + payload_len pkt \<le> 131072 \<longrightarrow>
      (\<exists>data len. icmp_encode True pkt = Some (data, len) \<and> int (length data) = len
          \<and> checksum data (nat len) = rfc1071_checksum data \<and> rfc1071_checksum data = 0))
   \<and> (length xs \<le> 131072 \<longrightarrow> checksum xs (length xs) = rfc1071_checksum xs)
   \<and> (pkt_wf pkt \<and> peer_family pkt = AF_INET \<longrightarrow>
      (\<exists>data len. icmp_encode True pkt = Some (data, len) \<and> int (length data) = len
          \<and> checksum data (nat len) = 0))
   \<and> (odd (length xs) \<longrightarrow> checksum xs (length xs) = checksum (xs @ [0]) (length xs + 1))"
proof -
  have code: "\<exists>data len. icmp_encode True pkt = Some (data, len) \<and> int (length data) = len
          \<and> checksum data (nat len) = 0"
    if a: "pkt_wf pkt \<and> peer_family pkt = AF_INET"
  proof -
    from a have wf: "pkt_wf pkt" and r: "use_checksum (GET_RULE pkt) \<noteq> 0"
      by (simp_all add: GET_RULE_v4 icmpv4_def)
    obtain data len where e: "icmp_encode True pkt = Some (data, len)"
      by (simp add: icmp_encode_bytes [OF wf])
    have "int (length data) = len"
      using e unfolding icmp_encode_bytes [OF wf]
      by (auto simp: length_icmp_hdr length_payload_bytes [OF wf])
    with e icmp_encode_checksum_zero [OF wf r e] show ?thesis by blast
  qed
  have rfc: "\<exists>data len. icmp_encode True pkt = Some (data, len) \<and> int (length data) = len
          \<and> checksum data (nat len) = rfc1071_checksum data \<and> rfc1071_checksum data = 0"
    if a: "pkt_wf pkt \<and> peer_family pkt = AF_INET \<and> 8 + payload_len pkt \<le> 131072"
  proof -
    from a code obtain data len where e: "icmp_encode True pkt = Some (data, len)"
      and l: "int (length data) = len" and c: "checksum data (nat len) = 0"
      by blast
    from a have wf: "pkt_wf pkt" by simp
    have "len = 8 + int (payload_len pkt)"
      using e unfolding icmp_encode_bytes [OF wf] by simp
    with l a have b: "length data \<le> 131072" and n: "nat len = length data" by simp_all
    from checksum_rfc1071_bounded [OF b] c n e l show ?thesis by simp
  qed
  have pad: "checksum xs (length xs) = checksum (xs @ [0]) (length xs + 1)" if "odd (length xs)"
  proof -
    from that have "wsum (xs @ [0]) = wsum xs" by (rule wsum_pad)
    moreover have "checksum (xs @ [0]) (length xs + 1) = fold16 (wsum (xs @ [0]))"
      using checksum_fold [of "xs @ [0]"] by simp
    ultimately show ?thesis by (simp add: checksum_fold)
  qed
  from code rfc pad checksum_rfc1071_bounded [of xs] show ?thesis by blast
qed

theorem checksum_self_consistency_witness:
  "(let pkt = \<lparr> peer_family = 2, peer_len = 16, type = ICMP_REQUEST, id' = 0x1234, seqno = 1,
                 payload = Some [0xAA, 0xBB, 0xCC], payload_len = 3 \<rparr>
    in pkt_wf pkt \<and> peer_family pkt = AF_INET \<and> 8 + payload_len pkt \<le> 131072
       \<and> (\<exists>data len. icmp_encode True pkt = Some (data, len) \<and> int (length data) = len
          \<and> checksum data (nat len) = rfc1071_checksum data \<and> rfc1071_checksum data = 0)
       \<and> (\<exists>data len. icmp_encode True pkt = Some (data, len) \<and> int (length data) = len
          \<and> checksum data (nat len) = 0))
   \<and> length [0xAA, 0xBB, 0xCC :: byte] \<le> 131072
   \<and> checksum [0xAA, 0xBB, 0xCC] (length [0xAA, 0xBB, 0xCC :: byte])
       = rfc1071_checksum [0xAA, 0xBB, 0xCC]
   \<and> odd (length [0xAA, 0xBB, 0xCC :: byte])
   \<and> checksum [0xAA, 0xBB, 0xCC] (length [0xAA, 0xBB, 0xCC :: byte])
       = checksum ([0xAA, 0xBB, 0xCC] @ [0]) (length [0xAA, 0xBB, 0xCC :: byte] + 1)"
  using checksum_self_consistency [of "\<lparr> peer_family = 2, peer_len = 16, type = ICMP_REQUEST, id' = 0x1234, seqno = 1,
                 payload = Some [0xAA, 0xBB, 0xCC], payload_len = 3 \<rparr>" "[0xAA, 0xBB, 0xCC]"]
  by (auto simp: pkt_wf_def AF_INET_def Let_def)

text \<open>
  Claim C2 as it was stated, for any payload length, fails for the IPv4 request with
  identifier and sequence number FFFF and a payload of 131072 bytes FF: the source stores
  the checksum F800, and the RFC 1071 checksum of the encoded buffer is FFFE, not zero.
\<close>

theorem checksum_self_consistency_counterexample:
  "pkt_wf \<lparr> peer_family = AF_INET, peer_len = 16, type = ICMP_REQUEST, id' = 0xFFFF,
             seqno = 0xFFFF, payload = Some (replicate 131072 0xFF), payload_len = 131072 \<rparr>
   \<and> icmp_encode True \<lparr> peer_family = AF_INET, peer_len = 16, type = ICMP_REQUEST, id' = 0xFFFF,
             seqno = 0xFFFF, payload = Some (replicate 131072 0xFF), payload_len = 131072 \<rparr>
       = Some ([0x08, 0x00, 0xF8, 0x00, 0xFF, 0xFF, 0xFF, 0xFF] @ replicate 131072 0xFF, 131080)
   \<and> rfc1071_checksum ([0x08, 0x00, 0xF8, 0x00, 0xFF, 0xFF, 0xFF, 0xFF] @ replicate 131072 0xFF)
       = 0xFFFE
   \<and> rfc1071_checksum ([0x08, 0x00, 0xF8, 0x00, 0xFF, 0xFF, 0xFF, 0xFF] @ replicate 131072 0xFF)
       \<noteq> 0"
proof -
  have wf: "pkt_wf \<lparr> peer_family = AF_INET, peer_len = 16, type = ICMP_REQUEST, id' = 0xFFFF,
             seqno = 0xFFFF, payload = Some (replicate 131072 0xFF), payload_len = 131072 \<rparr>"
    by (simp add: pkt_wf_def)
  have w: "wsum (replicate 131072 0xFF) = 0xFFFF0000"
    using wsum_replicate [of 65536 "0xFF"] by (simp add: word16_def)
  have ck: "checksum ([0x08, 0x00, 0x00, 0x00, 0xFF, 0xFF, 0xFF, 0xFF] @ replicate 131072 0xFF) 131080
              = 0xF800"
    by (subst checksum_eval, simp, subst wsum_append, simp)
      (simp add: w fold16_def word16_def)
  have enc: "icmp_encode True \<lparr> peer_family = AF_INET, peer_len = 16, type = ICMP_REQUEST, id' = 0xFFFF,
             seqno = 0xFFFF, payload = Some (replicate 131072 0xFF), payload_len = 131072 \<rparr>
       = Some ([0x08, 0x00, 0xF8, 0x00, 0xFF, 0xFF, 0xFF, 0xFF] @ replicate 131072 0xFF, 131080)"
    using ck
    by (subst icmp_encode_bytes [OF wf])
      (simp add: GET_RULE_v4 rule_simps icmp_hdr_def payload_bytes_def payload_buf_def)
  have r: "rfc1071_sum (replicate 131072 0xFF) = 4294901760"
    using rfc1071_sum_replicate [of 65536 "0xFF"] by simp
  have s: "rfc1071_sum ([0x08, 0x00, 0xF8, 0x00, 0xFF, 0xFF, 0xFF, 0xFF] @ replicate 131072 0xFF)
             = 4295098366"
    by (subst rfc1071_sum_append, simp) (simp add: r)
  have e: "end_around_carry 4295098366 = 1"
    by (simp add: end_around_carry.simps)
  have c: "rfc1071_checksum ([0x08, 0x00, 0xF8, 0x00, 0xFF, 0xFF, 0xFF, 0xFF] @ replicate 131072 0xFF)
       = 0xFFFE"
    by (simp only: rfc1071_checksum_def s e) simp
  from wf enc c show ?thesis by simp
qed

text \<open>
  Claim C3 (the example).  Encoding the IPv4 echo request with identifier 0x1234, sequence
  number 1 and payload AA BB gives the ten bytes 08 00 3B 0F 12 34 00 01 AA BB, where 3B0F
  is the checksum of the ten bytes with the checksum field zero.  Parsing these bytes from
  the ICMP header on, and parsing them behind a 20-byte IP header, returns 0 with type
  Request, identifier 0x1234, sequence number 1 and payload AA BB.
\<close>

theorem icmp_encode_example:
  "icmp_encode True \<lparr> peer_family = AF_INET, peer_len = plen, type = ICMP_REQUEST,
                       id' = 0x1234, seqno = 0x0001,
                       payload = Some [0xAA, 0xBB], payload_len = 2 \<rparr>
     = Some ([0x08, 0x00, 0x3B, 0x0F, 0x12, 0x34, 0x00, 0x01, 0xAA, 0xBB], 10)
   \<and> checksum [0x08, 0x00, 0x00, 0x00, 0x12, 0x34, 0x00, 0x01, 0xAA, 0xBB] 10 = 0x3B0F
   \<and> icmp_parse_stripped icmpv4 True rcv
         [0x08, 0x00, 0x3B, 0x0F, 0x12, 0x34, 0x00, 0x01, 0xAA, 0xBB] 10
     = Returned 0 (rcv\<lparr> type := ICMP_REQUEST, id' := 0x1234, seqno := 1,
                          payload := Some [0xAA, 0xBB], payload_len := 2 \<rparr>)
   \<and> icmp_parse True (rcv\<lparr> peer_family := AF_INET \<rparr>)
         ((0x45 # replicate 19 0) @ [0x08, 0x00, 0x3B, 0x0F, 0x12, 0x34, 0x00, 0x01, 0xAA, 0xBB]) 30
     = Returned 0 (rcv\<lparr> peer_family := AF_INET, type := ICMP_REQUEST, id' := 0x1234, seqno := 1,
                          payload := Some [0xAA, 0xBB], payload_len := 2 \<rparr>)"
proof (intro conjI)
  have ck0: "checksum [0x08, 0x00, 0x00, 0x00, 0x12, 0x34, 0x00, 0x01, 0xAA, 0xBB] 10 = 0x3B0F"
    by (simp add: checksum_eval fold16_def word16_def)
  then show "checksum [0x08, 0x00, 0x00, 0x00, 0x12, 0x34, 0x00, 0x01, 0xAA, 0xBB] 10 = 0x3B0F" .
  show "icmp_encode True \<lparr> peer_family = AF_INET, peer_len = plen, type = ICMP_REQUEST,
                       id' = 0x1234, seqno = 0x0001,
                       payload = Some [0xAA, 0xBB], payload_len = 2 \<rparr>
     = Some ([0x08, 0x00, 0x3B, 0x0F, 0x12, 0x34, 0x00, 0x01, 0xAA, 0xBB], 10)"
    by (subst icmp_encode_bytes)
      (simp_all add: pkt_wf_def GET_RULE_v4 rule_simps icmp_hdr_def payload_bytes_def
        payload_buf_def ck0)
  have ck: "checksum [0x08, 0x00, 0x3B, 0x0F, 0x12, 0x34, 0x00, 0x01, 0xAA, 0xBB] 10 = 0"
    by (simp add: checksum_eval fold16_def word16_def)
  show p: "icmp_parse_stripped icmpv4 True rcv
         [0x08, 0x00, 0x3B, 0x0F, 0x12, 0x34, 0x00, 0x01, 0xAA, 0xBB] 10
     = Returned 0 (rcv\<lparr> type := ICMP_REQUEST, id' := 0x1234, seqno := 1,
                          payload := Some [0xAA, 0xBB], payload_len := 2 \<rparr>)" for rcv
    by (simp add: icmp_parse_stripped_def icmp_parse_fields_def ICMP_HDRLEN_def rule_simps ck
        read16_def)
  have "icmp_parse True (rcv\<lparr> peer_family := AF_INET \<rparr>)
         ((0x45 # replicate 19 0) @ [0x08, 0x00, 0x3B, 0x0F, 0x12, 0x34, 0x00, 0x01, 0xAA, 0xBB])
         (int (length (0x45 # replicate 19 (0 :: byte))) + 10)
      = icmp_parse_stripped (GET_RULE (rcv\<lparr> peer_family := AF_INET \<rparr>)) True (rcv\<lparr> peer_family := AF_INET \<rparr>)
         [0x08, 0x00, 0x3B, 0x0F, 0x12, 0x34, 0x00, 0x01, 0xAA, 0xBB] 10"
    by (rule icmp_parse_strip) (simp_all add: GET_RULE_v4 rule_simps)
  then show "icmp_parse True (rcv\<lparr> peer_family := AF_INET \<rparr>)
         ((0x45 # replicate 19 0) @ [0x08, 0x00, 0x3B, 0x0F, 0x12, 0x34, 0x00, 0x01, 0xAA, 0xBB]) 30
     = Returned 0 (rcv\<lparr> peer_family := AF_INET, type := ICMP_REQUEST, id' := 0x1234, seqno := 1,
                          payload := Some [0xAA, 0xBB], payload_len := 2 \<rparr>)"
    by (simp add: GET_RULE_v4 p)
qed

text \<open>
  Claim C4 (the rejections and their order).  The claim lets every call end in success or
  in one of five codes.  For the 9-byte buffer 80 00 00 00 00 00 00 00 01 and a peer that
  is not IPv4 no step of the specification refuses, and with \<open>malloc\<close> succeeding the call
  returns 0 with a one-byte payload.  With \<open>malloc\<close> returning \<open>NULL\<close> the same call returns
  no code at all: the source hands the untested pointer to \<open>memcpy\<close> (lines 143 and 144),
  while \<open>icmp_encode\<close> does test what \<open>calloc\<close> returns (lines 79 to 81).
\<close>

theorem icmp_parse_malloc_unchecked:
  "spec_decode_rejection
       (GET_RULE \<lparr> peer_family = 10, peer_len = 28, type = ICMP_REPLY, id' = 0, seqno = 0,
                   payload = None, payload_len = 0 \<rparr>)
       [128, 0, 0, 0, 0, 0, 0, 0, 1] = None
   \<and> icmp_parse True \<lparr> peer_family = 10, peer_len = 28, type = ICMP_REPLY, id' = 0, seqno = 0,
                        payload = None, payload_len = 0 \<rparr> [128, 0, 0, 0, 0, 0, 0, 0, 1] 9
       = Returned 0 \<lparr> peer_family = 10, peer_len = 28, type = ICMP_REQUEST, id' = 0, seqno = 0,
                        payload = Some [1], payload_len = 1 \<rparr>
   \<and> icmp_parse False \<lparr> peer_family = 10, peer_len = 28, type = ICMP_REPLY, id' = 0, seqno = 0,
                         payload = None, payload_len = 0 \<rparr> [128, 0, 0, 0, 0, 0, 0, 0, 1] 9
       = Fault"
  by (simp add: spec_decode_rejection_def spec_segment_rejection_def icmp_parse_def
      icmp_parse_stripped_def icmp_parse_fields_def GET_RULE_def ICMP_ADDRFAMILY_def AF_INET_def
      rule_simps ICMP_HDRLEN_def read16_def Let_def)

text \<open>
  Claim C5 (IPv4 header strip).  For an IPv4 peer, parsing a 20-byte IP header whose first
  byte has low nibble 5, followed by any segment, gives what parsing the segment from the
  ICMP header on gives; the same holds for every header whose length is four times the low
  nibble of its first byte.  For a valid segment of 8 bytes or more that common result is
  success, with the type, identifier, sequence number and payload of the segment.
\<close>

theorem ipv4_header_strip:
  "(peer_family pkt = AF_INET \<and> length iphdr = 20 \<and> hd iphdr AND 0x0f = 5 \<longrightarrow>
      icmp_parse m pkt (iphdr @ seg) (int (length (iphdr @ seg))) =
      icmp_parse_stripped icmpv4 m pkt seg (int (length seg)))
   \<and> (peer_family pkt = AF_INET \<and> iphdr \<noteq> [] \<and> length iphdr = 4 * unat (hd iphdr AND 0x0f) \<longrightarrow>
      icmp_parse m pkt (iphdr @ seg) (int (length (iphdr @ seg))) =
      icmp_parse_stripped icmpv4 m pkt seg (int (length seg)))
   \<and> (8 \<le> length seg \<and> checksum seg (length seg) = 0 \<and> (hd seg = 8 \<or> hd seg = 0) \<longrightarrow>
      icmp_parse_stripped icmpv4 True pkt seg (int (length seg)) =
      Returned 0 (pkt\<lparr> type := (if hd seg = 8 then ICMP_REQUEST else ICMP_REPLY),
         id' := read16 seg 4, seqno := read16 seg 6,
         payload := (if length seg = 8 then None else Some (drop 8 seg)),
         payload_len := length seg - 8 \<rparr>))"
proof (intro conjI impI)
  assume a: "peer_family pkt = AF_INET \<and> length iphdr = 20 \<and> hd iphdr AND 0x0f = 5"
  then have "iphdr \<noteq> []" and "length iphdr = 4 * unat (hd iphdr AND 0x0f)"
    by auto
  with a show "icmp_parse m pkt (iphdr @ seg) (int (length (iphdr @ seg))) =
      icmp_parse_stripped icmpv4 m pkt seg (int (length seg))"
    by (intro icmp_parse_strip_v4) simp_all
next
  assume "peer_family pkt = AF_INET \<and> iphdr \<noteq> [] \<and> length iphdr = 4 * unat (hd iphdr AND 0x0f)"
  then show "icmp_parse m pkt (iphdr @ seg) (int (length (iphdr @ seg))) =
      icmp_parse_stripped icmpv4 m pkt seg (int (length seg))"
    by (intro icmp_parse_strip_v4) simp_all
next
  assume a: "8 \<le> length seg \<and> checksum seg (length seg) = 0 \<and> (hd seg = 8 \<or> hd seg = 0)"
  then have "icmp_parse_stripped icmpv4 True pkt seg (int (length seg)) =
     icmp_parse_fields True (pkt\<lparr> type := (if hd seg = 8 then ICMP_REQUEST else ICMP_REPLY) \<rparr>)
       seg (int (length seg))"
    by (subst icmp_parse_stripped_cases) (auto simp: rule_simps uint_byte_eq)
  with a show "icmp_parse_stripped icmpv4 True pkt seg (int (length seg)) =
      Returned 0 (pkt\<lparr> type := (if hd seg = 8 then ICMP_REQUEST else ICMP_REPLY),
         id' := read16 seg 4, seqno := read16 seg 6,
         payload := (if length seg = 8 then None else Some (drop 8 seg)),
         payload_len := length seg - 8 \<rparr>)"
    by (simp add: icmp_parse_fields_result)
qed

theorem ipv4_header_strip_witness:
  "(let pkt = \<lparr> peer_family = 2, peer_len = 16, type = ICMP_REPLY, id' = 0, seqno = 0,
                 payload = None, payload_len = 0 \<rparr>;
        iphdr = 0x45 # replicate 19 (0 :: byte);
        seg = [8, 0, 0x3B, 0x0F, 0x12, 0x34, 0, 1, 0xAA, 0xBB :: byte]
    in peer_family pkt = AF_INET \<and> length iphdr = 20 \<and> hd iphdr AND 0x0f = 5
       \<and> iphdr \<noteq> [] \<and> length iphdr = 4 * unat (hd iphdr AND 0x0f)
       \<and> 8 \<le> length seg \<and> checksum seg (length seg) = 0 \<and> (hd seg = 8 \<or> hd seg = 0)
       \<and> icmp_parse True pkt (iphdr @ seg) (int (length (iphdr @ seg))) =
           icmp_parse_stripped icmpv4 True pkt seg (int (length seg))
       \<and> icmp_parse_stripped icmpv4 True pkt seg (int (length seg)) =
           Returned 0 (pkt\<lparr> type := ICMP_REQUEST, id' := 0x1234, seqno := 1,
                             payload := Some [0xAA, 0xBB], payload_len := 2 \<rparr>))"
  using ipv4_header_strip [where m = True
      and pkt = "\<lparr> peer_family = 2, peer_len = 16, type = ICMP_REPLY, id' = 0, seqno = 0,
                 payload = None, payload_len = 0 \<rparr>"
      and iphdr = "0x45 # replicate 19 0"
      and seg = "[8, 0, 0x3B, 0x0F, 0x12, 0x34, 0, 1, 0xAA, 0xBB]"]
  by (simp add: AF_INET_def checksum_eval fold16_def word16_def read16_def Let_def)

text \<open>
  Claim C6 (length boundary).  For a peer that is not IPv4, a buffer of 7 bytes is refused
  with the code - 1; a buffer of exactly 8 bytes whose first byte is 128 or 129 is accepted,
  and the payload pointer is \<open>NULL\<close> with payload length 0, whatever \<open>malloc\<close> would do
  (it is not called).
\<close>

theorem icmpv6_length_boundary:
  "(peer_family pkt \<noteq> AF_INET \<and> length data = 7 \<longrightarrow>
      icmp_parse m pkt data (int (length data)) = Returned (- 1) pkt)
   \<and> (peer_family pkt \<noteq> AF_INET \<and> length data = 8 \<and> (hd data = 128 \<or> hd data = 129) \<longrightarrow>
      icmp_parse m pkt data (int (length data)) =
      Returned 0 (pkt\<lparr> type := (if hd data = 128 then ICMP_REQUEST else ICMP_REPLY),
         id' := read16 data 4, seqno := read16 data 6, payload := None, payload_len := 0 \<rparr>))"
proof (intro conjI impI)
  assume "peer_family pkt \<noteq> AF_INET \<and> length data = 7"
  then show "icmp_parse m pkt data (int (length data)) = Returned (- 1) pkt"
    by (simp add: icmp_parse_v6 icmp_parse_stripped_def ICMP_HDRLEN_def)
next
  assume a: "peer_family pkt \<noteq> AF_INET \<and> length data = 8 \<and> (hd data = 128 \<or> hd data = 129)"
  then have "icmp_parse m pkt data (int (length data)) =
     icmp_parse_fields m (pkt\<lparr> type := (if hd data = 128 then ICMP_REQUEST else ICMP_REPLY) \<rparr>)
       data (int (length data))"
    by (subst icmp_parse_v6, simp, subst icmp_parse_stripped_cases)
      (auto simp: rule_simps uint_byte_eq)
  with a show "icmp_parse m pkt data (int (length data)) =
      Returned 0 (pkt\<lparr> type := (if hd data = 128 then ICMP_REQUEST else ICMP_REPLY),
         id' := read16 data 4, seqno := read16 data 6, payload := None, payload_len := 0 \<rparr>)"
    by (simp add: icmp_parse_fields_empty)
qed

theorem icmpv6_length_boundary_witness:
  "(let pkt = \<lparr> peer_family = 10, peer_len = 28, type = ICMP_REPLY, id' = 0, seqno = 0,
                 payload = Some [1, 2, 3], payload_len = 3 \<rparr>;
        short = [128, 0, 0, 0, 0x12, 0x34, 0 :: byte];
        exact = [129, 0, 0, 0, 0x12, 0x34, 0, 7 :: byte]
    in peer_family pkt \<noteq> AF_INET \<and> length short = 7 \<and> length exact = 8
       \<and> (hd exact = 128 \<or> hd exact = 129)
       \<and> icmp_parse False pkt short (int (length short)) = Returned (- 1) pkt
       \<and> icmp_parse False pkt exact (int (length exact)) =
           Returned 0 (pkt\<lparr> type := ICMP_REPLY, id' := 0x1234, seqno := 7,
                             payload := None, payload_len := 0 \<rparr>))"
  using
    icmpv6_length_boundary [where m = False
      and pkt = "\<lparr> peer_family = 10, peer_len = 28, type = ICMP_REPLY, id' = 0, seqno = 0,
                 payload = Some [1, 2, 3], payload_len = 3 \<rparr>"
      and data = "[128, 0, 0, 0, 0x12, 0x34, 0]"]
    icmpv6_length_boundary [where m = False
      and pkt = "\<lparr> peer_family = 10, peer_len = 28, type = ICMP_REPLY, id' = 0, seqno = 0,
                 payload = Some [1, 2, 3], payload_len = 3 \<rparr>"
      and data = "[129, 0, 0, 0, 0x12, 0x34, 0, 7]"]
  by (simp add: AF_INET_def read16_def Let_def)

text \<open>
  Claim C7 (type rejection).  For IPv4, behind a well-formed IP header and with a correct
  checksum, a first ICMP byte other than 8 and 0 is refused with - 5, the byte 8 gives type
  Request and the byte 0 type Reply.  For any other family and a buffer of at least 8 bytes,
  a first byte other than 128 and 129 is refused with - 5, 128 gives Request and 129 Reply.
\<close>

theorem icmp_type_rejection:
  "(peer_family pkt = AF_INET \<and> iphdr \<noteq> [] \<and> length iphdr = 4 * unat (hd iphdr AND 0x0f)
      \<and> 8 \<le> length seg \<and> checksum seg (length seg) = 0 \<longrightarrow>
      (hd seg \<noteq> 8 \<and> hd seg \<noteq> 0 \<longrightarrow>
         icmp_parse m pkt (iphdr @ seg) (int (length (iphdr @ seg))) = Returned (- 5) pkt)
      \<and> (hd seg = 8 \<longrightarrow>
         (\<exists>pkt'. icmp_parse True pkt (iphdr @ seg) (int (length (iphdr @ seg))) = Returned 0 pkt'
            \<and> type pkt' = ICMP_REQUEST))
      \<and> (hd seg = 0 \<longrightarrow>
         (\<exists>pkt'. icmp_parse True pkt (iphdr @ seg) (int (length (iphdr @ seg))) = Returned 0 pkt'
            \<and> type pkt' = ICMP_REPLY)))
   \<and> (peer_family pkt_b \<noteq> AF_INET \<and> 8 \<le> length data \<longrightarrow>
      (hd data \<noteq> 128 \<and> hd data \<noteq> 129 \<longrightarrow>
         icmp_parse m pkt_b data (int (length data)) = Returned (- 5) pkt_b)
      \<and> (hd data = 128 \<longrightarrow>
         (\<exists>pkt'. icmp_parse True pkt_b data (int (length data)) = Returned 0 pkt'
            \<and> type pkt' = ICMP_REQUEST))
      \<and> (hd data = 129 \<longrightarrow>
         (\<exists>pkt'. icmp_parse True pkt_b data (int (length data)) = Returned 0 pkt'
            \<and> type pkt' = ICMP_REPLY)))"
proof (intro conjI impI; (elim conjE)?)
  assume v4: "peer_family pkt = AF_INET" "iphdr \<noteq> []" "length iphdr = 4 * unat (hd iphdr AND 0x0f)"
    and seg: "8 \<le> length seg" and ck: "checksum seg (length seg) = 0"
  note p = icmp_parse_strip_v4 [OF v4, of _ seg]
  have c: "use_checksum icmpv4 \<noteq> 0 \<longrightarrow> checksum seg (length seg) = 0"
    using ck by simp
  note t = icmp_parse_stripped_type [OF seg c, unfolded rule_simps uint_byte_eq]
  {
    assume "hd seg \<noteq> 8" "hd seg \<noteq> 0"
    then show "icmp_parse m pkt (iphdr @ seg) (int (length (iphdr @ seg))) = Returned (- 5) pkt"
      unfolding p using t(1) by simp
  }
  {
    assume "hd seg = 8"
    then show "\<exists>pkt'. icmp_parse True pkt (iphdr @ seg) (int (length (iphdr @ seg))) = Returned 0 pkt'
            \<and> type pkt' = ICMP_REQUEST"
      unfolding p using t(2) by simp
  }
  {
    assume "hd seg = 0"
    then show "\<exists>pkt'. icmp_parse True pkt (iphdr @ seg) (int (length (iphdr @ seg))) = Returned 0 pkt'
            \<and> type pkt' = ICMP_REPLY"
      unfolding p using t(3) by simp
  }
next
  assume v6: "peer_family pkt_b \<noteq> AF_INET" and len: "8 \<le> length data"
  note p = icmp_parse_v6 [OF v6]
  have c: "use_checksum icmpv6 \<noteq> 0 \<longrightarrow> checksum data (length data) = 0"
    by (simp add: rule_simps)
  note t = icmp_parse_stripped_type [OF len c, unfolded rule_simps uint_byte_eq]
  {
    assume "hd data \<noteq> 128" "hd data \<noteq> 129"
    then show "icmp_parse m pkt_b data (int (length data)) = Returned (- 5) pkt_b"
      unfolding p using t(1) by simp
  }
  {
    assume "hd data = 128"
    then show "\<exists>pkt'. icmp_parse True pkt_b data (int (length data)) = Returned 0 pkt'
            \<and> type pkt' = ICMP_REQUEST"
      unfolding p using t(2) by simp
  }
  {
    assume "hd data = 129"
    then show "\<exists>pkt'. icmp_parse True pkt_b data (int (length data)) = Returned 0 pkt'
            \<and> type pkt' = ICMP_REPLY"
      unfolding p using t(3) by simp
  }
qed

theorem icmp_type_rejection_witness:
  "(let v4 = \<lparr> peer_family = 2, peer_len = 16, type = ICMP_REPLY, id' = 0, seqno = 0,
                payload = None, payload_len = 0 \<rparr>;
        v6 = \<lparr> peer_family = 10, peer_len = 28, type = ICMP_REPLY, id' = 0, seqno = 0,
                payload = None, payload_len = 0 \<rparr>;
        iphdr = 0x45 # replicate 19 (0 :: byte)
    in peer_family v4 = AF_INET \<and> peer_family v6 \<noteq> AF_INET
       \<and> iphdr \<noteq> [] \<and> length iphdr = 4 * unat (hd iphdr AND 0x0f)
       \<and> checksum [128, 0, 0x7F, 0xFF, 0, 0, 0, 0] 8 = 0
       \<and> checksum [8, 0, 0xF7, 0xFF, 0, 0, 0, 0] 8 = 0
       \<and> checksum [0, 0, 0xFF, 0xFF, 0, 0, 0, 0] 8 = 0
       \<and> icmp_parse False v4 (iphdr @ [128, 0, 0x7F, 0xFF, 0, 0, 0, 0]) 28 = Returned (- 5) v4
       \<and> (\<exists>pkt'. icmp_parse True v4 (iphdr @ [8, 0, 0xF7, 0xFF, 0, 0, 0, 0]) 28 = Returned 0 pkt'
              \<and> type pkt' = ICMP_REQUEST)
       \<and> (\<exists>pkt'. icmp_parse True v4 (iphdr @ [0, 0, 0xFF, 0xFF, 0, 0, 0, 0]) 28 = Returned 0 pkt'
              \<and> type pkt' = ICMP_REPLY)
       \<and> icmp_parse False v6 [8, 0, 0xF7, 0xFF, 0, 0, 0, 0] 8 = Returned (- 5) v6
       \<and> (\<exists>pkt'. icmp_parse True v6 [128, 0, 0, 0, 0, 0, 0, 0] 8 = Returned 0 pkt'
              \<and> type pkt' = ICMP_REQUEST)
       \<and> (\<exists>pkt'. icmp_parse True v6 [129, 0, 0, 0, 0, 0, 0, 0] 8 = Returned 0 pkt'
              \<and> type pkt' = ICMP_REPLY))"
  using
    icmp_type_rejection [where m = False
      and pkt = "\<lparr> peer_family = 2, peer_len = 16, type = ICMP_REPLY, id' = 0, seqno = 0,
                 payload = None, payload_len = 0 \<rparr>"
      and pkt_b = "\<lparr> peer_family = 10, peer_len = 28, type = ICMP_REPLY, id' = 0, seqno = 0,
                 payload = None, payload_len = 0 \<rparr>"
      and iphdr = "0x45 # replicate 19 0"
      and seg = "[128, 0, 0x7F, 0xFF, 0, 0, 0, 0]" and data = "[8, 0, 0xF7, 0xFF, 0, 0, 0, 0]"]
    icmp_type_rejection [where m = False
      and pkt = "\<lparr> peer_family = 2, peer_len = 16, type = ICMP_REPLY, id' = 0, seqno = 0,
                 payload = None, payload_len = 0 \<rparr>"
      and pkt_b = "\<lparr> peer_family = 10, peer_len = 28, type = ICMP_REPLY, id' = 0, seqno = 0,
                 payload = None, payload_len = 0 \<rparr>"
      and iphdr = "0x45 # replicate 19 0"
      and seg = "[8, 0, 0xF7, 0xFF, 0, 0, 0, 0]" and data = "[128, 0, 0, 0, 0, 0, 0, 0]"]
    icmp_type_rejection [where m = False
      and pkt = "\<lparr> peer_family = 2, peer_len = 16, type = ICMP_REPLY, id' = 0, seqno = 0,
                 payload = None, payload_len = 0 \<rparr>"
      and pkt_b = "\<lparr> peer_family = 10, peer_len = 28, type = ICMP_REPLY, id' = 0, seqno = 0,
                 payload = None, payload_len = 0 \<rparr>"
      and iphdr = "0x45 # replicate 19 0"
      and seg = "[0, 0, 0xFF, 0xFF, 0, 0, 0, 0]" and data = "[129, 0, 0, 0, 0, 0, 0, 0]"]
  by (simp add: AF_INET_def checksum_eval fold16_def word16_def Let_def)

text \<open>
  Claim C8 (send path).  When \<open>calloc\<close> succeeds, \<open>icmp_send\<close> calls \<open>sendto\<close> once,
  with the encoded buffer and its length, and returns whatever \<open>sendto\<close> returns, for every
  \<open>sendto\<close>.  When \<open>calloc\<close> fails, the encoder returns no buffer, no call is made and
  \<open>icmp_send\<close> returns 0.
\<close>

theorem icmp_send_result:
  "(\<exists>data len. icmp_encode True pkt = Some (data, len)
       \<and> icmp_send True sendto socket pkt calls =
           (sendto \<lparr> sc_socket = socket, sc_buf = data, sc_len = len, sc_flags = 0,
                      sc_family = peer_family pkt, sc_addrlen = peer_len pkt \<rparr>,
            calls @ [\<lparr> sc_socket = socket, sc_buf = data, sc_len = len, sc_flags = 0,
                       sc_family = peer_family pkt, sc_addrlen = peer_len pkt \<rparr>]))
   \<and> icmp_encode False pkt = None
   \<and> icmp_send False sendto socket pkt calls = (0, calls)"
proof (intro conjI)
  obtain data len where e: "icmp_encode True pkt = Some (data, len)"
    using icmp_encode_True by blast
  then show "\<exists>data len. icmp_encode True pkt = Some (data, len)
       \<and> icmp_send True sendto socket pkt calls =
           (sendto \<lparr> sc_socket = socket, sc_buf = data, sc_len = len, sc_flags = 0,
                      sc_family = peer_family pkt, sc_addrlen = peer_len pkt \<rparr>,
            calls @ [\<lparr> sc_socket = socket, sc_buf = data, sc_len = len, sc_flags = 0,
                       sc_family = peer_family pkt, sc_addrlen = peer_len pkt \<rparr>])"
    by (simp add: icmp_send_def Let_def)
  show "icmp_encode False pkt = None"
    by (rule icmp_encode_False)
  then show "icmp_send False sendto socket pkt calls = (0, calls)"
    by (simp add: icmp_send_def)
qed

text \<open>
  Claim C9 (family dispatch).  For every family other than \<open>AF_INET\<close>, whatever its value,
  the rule is the IPv6 one: the encoder writes 128 or 129 and leaves the checksum field
  zero, and the parser strips nothing, checks no checksum and accepts exactly the type
  codes 128 and 129; no other outcome exists.
\<close>

theorem family_dispatch_total:
  "peer_family pkt \<noteq> AF_INET \<longrightarrow>
     GET_RULE pkt = icmpv6
     \<and> use_checksum (GET_RULE pkt) = 0 \<and> strip_iphdr (GET_RULE pkt) = 0
     \<and> request_type (GET_RULE pkt) = 128 \<and> reply_type (GET_RULE pkt) = 129
     \<and> (pkt_wf pkt \<longrightarrow>
          icmp_encode True pkt =
            Some ([if type pkt = ICMP_REQUEST then 128 else 129, 0, 0, 0,
                   ucast (drop_bit 8 (id' pkt)), ucast (id' pkt AND 0xFF),
                   ucast (drop_bit 8 (seqno pkt)), ucast (seqno pkt AND 0xFF)] @ payload_bytes pkt,
                  8 + int (payload_len pkt)))
     \<and> icmp_parse m pkt data (int (length data)) =
          (if length data < 8 then Returned (- 1) pkt
           else if hd data = 128
             then icmp_parse_fields m (pkt\<lparr> type := ICMP_REQUEST \<rparr>) data (int (length data))
           else if hd data = 129
             then icmp_parse_fields m (pkt\<lparr> type := ICMP_REPLY \<rparr>) data (int (length data))
           else Returned (- 5) pkt)"
proof (intro impI conjI)
  assume v6: "peer_family pkt \<noteq> AF_INET"
  then show r: "GET_RULE pkt = icmpv6" by (rule GET_RULE_v6)
  then show "use_checksum (GET_RULE pkt) = 0" "strip_iphdr (GET_RULE pkt) = 0"
    "request_type (GET_RULE pkt) = 128" "reply_type (GET_RULE pkt) = 129"
    by (simp_all add: rule_simps)
  show "icmp_parse m pkt data (int (length data)) =
          (if length data < 8 then Returned (- 1) pkt
           else if hd data = 128
             then icmp_parse_fields m (pkt\<lparr> type := ICMP_REQUEST \<rparr>) data (int (length data))
           else if hd data = 129
             then icmp_parse_fields m (pkt\<lparr> type := ICMP_REPLY \<rparr>) data (int (length data))
           else Returned (- 5) pkt)"
  proof (cases "length data < 8")
    case True
    then show ?thesis
      by (simp add: icmp_parse_v6 [OF v6] icmp_parse_stripped_def ICMP_HDRLEN_def)
  next
    case False
    then have "8 \<le> length data" by simp
    then show ?thesis
      using False
      by (simp add: icmp_parse_v6 [OF v6] icmp_parse_stripped_cases rule_simps uint_byte_eq)
  qed
  assume wf: "pkt_wf pkt"
  show "icmp_encode True pkt =
            Some ([if type pkt = ICMP_REQUEST then 128 else 129, 0, 0, 0,
                   ucast (drop_bit 8 (id' pkt)), ucast (id' pkt AND 0xFF),
                   ucast (drop_bit 8 (seqno pkt)), ucast (seqno pkt AND 0xFF)] @ payload_bytes pkt,
                  8 + int (payload_len pkt))"
    by (simp add: icmp_encode_bytes [OF wf] r rule_simps icmp_hdr_def)
qed

theorem family_dispatch_total_witness:
  "(let pkt = \<lparr> peer_family = 99, peer_len = 0, type = ICMP_REQUEST, id' = 0xBEEF, seqno = 7,
                 payload = Some [1, 2, 3], payload_len = 3 \<rparr>
    in peer_family pkt \<noteq> AF_INET \<and> pkt_wf pkt
       \<and> GET_RULE pkt = icmpv6
       \<and> icmp_encode True pkt = Some ([128, 0, 0, 0, 0xBE, 0xEF, 0, 7, 1, 2, 3], 11)
       \<and> icmp_parse True pkt [129, 0, 0, 0, 0xBE, 0xEF, 0, 7, 1, 2, 3] 11 =
           Returned 0 (pkt\<lparr> type := ICMP_REPLY, payload := Some [1, 2, 3] \<rparr>)
       \<and> icmp_parse True pkt [8, 0, 0xF7, 0xFF, 0, 0, 0, 0] 8 = Returned (- 5) pkt)"
  using
    family_dispatch_total [where m = True
      and pkt = "\<lparr> peer_family = 99, peer_len = 0, type = ICMP_REQUEST, id' = 0xBEEF, seqno = 7,
                 payload = Some [1, 2, 3], payload_len = 3 \<rparr>"
      and data = "[129, 0, 0, 0, 0xBE, 0xEF, 0, 7, 1, 2, 3]"]
    family_dispatch_total [where m = True
      and pkt = "\<lparr> peer_family = 99, peer_len = 0, type = ICMP_REQUEST, id' = 0xBEEF, seqno = 7,
                 payload = Some [1, 2, 3], payload_len = 3 \<rparr>"
      and data = "[8, 0, 0xF7, 0xFF, 0, 0, 0, 0]"]
  by (simp add: AF_INET_def pkt_wf_def payload_bytes_def payload_buf_def icmp_parse_fields_def
      ICMP_HDRLEN_def read16_def Let_def)

text \<open>
  Claim C10 (a failing parse writes nothing).  Whenever \<open>icmp_parse\<close> returns a code other
  than 0, the code is one of - 1, - 2, - 3, - 4, - 5 and the packet is exactly the one the
  caller passed.
\<close>

theorem icmp_parse_failure_atomic:
  assumes r: "icmp_parse m pkt data len = Returned c pkt'" and c: "c \<noteq> 0"
  shows "pkt' = pkt \<and> c \<in> {- 1, - 2, - 3, - 4, - 5}"
proof (cases "strip_iphdr (GET_RULE pkt) \<noteq> 0")
  case False
  with r have "icmp_parse_stripped (GET_RULE pkt) m pkt data len = Returned c pkt'"
    by (simp add: icmp_parse_def)
  from icmp_parse_stripped_failure [OF this c] show ?thesis by auto
next
  case strip: True
  define hdrlen where "hdrlen = push_bit 2 (uint (data ! 0 AND 0x0f))"
  show ?thesis
  proof (cases "len = 0")
    case True
    with strip r show ?thesis by (simp add: icmp_parse_def)
  next
    case ne: False
    show ?thesis
    proof (cases "len < hdrlen")
      case True
      with strip ne r show ?thesis
        by (simp add: icmp_parse_def Let_def flip: hdrlen_def)
    next
      case False
      with strip ne r
      have "icmp_parse_stripped (GET_RULE pkt) m pkt (drop (nat hdrlen) data) (len - hdrlen)
              = Returned c pkt'"
        by (simp add: icmp_parse_def Let_def flip: hdrlen_def)
      from icmp_parse_stripped_failure [OF this c] show ?thesis by auto
    qed
  qed
qed

theorem icmp_parse_failure_atomic_witness:
  "(let pkt = \<lparr> peer_family = 10, peer_len = 28, type = ICMP_REQUEST, id' = 0xBEEF, seqno = 7,
                 payload = Some [1, 2, 3], payload_len = 3 \<rparr>
    in icmp_parse True pkt [8, 0, 0, 0, 0x12, 0x34, 0, 1, 0xAA] 9 = Returned (- 5) pkt
       \<and> (- 5 :: int) \<noteq> 0
       \<and> (pkt = pkt \<and> (- 5 :: int) \<in> {- 1, - 2, - 3, - 4, - 5}))"
proof -
  define pkt where "pkt = \<lparr> peer_family = 10, peer_len = 28, type = ICMP_REQUEST, id' = 0xBEEF,
      seqno = 7, payload = Some [1 :: byte, 2, 3], payload_len = 3 \<rparr>"
  have r: "icmp_parse True pkt [8, 0, 0, 0, 0x12, 0x34, 0, 1, 0xAA] 9 = Returned (- 5) pkt"
    by (simp add: pkt_def icmp_parse_def icmp_parse_stripped_def GET_RULE_def ICMP_ADDRFAMILY_def
        AF_INET_def rule_simps ICMP_HDRLEN_def)
  have c: "(- 5 :: int) \<noteq> 0" by simp
  from icmp_parse_failure_atomic [OF r c] r c show ?thesis
    unfolding pkt_def Let_def by simp
qed

end
